theory Spec2Isabelle
  imports Complex_Main "HOL-Library.Multiset"
begin

section \<open>Configuration (config.py)\<close>

text \<open>
  The dataclass \<open>QuotexConfig\<close>. Python ints are modelled as \<open>int\<close>. A Python float is a
  real number here; the operations on floats that the program uses are modelled below
  with their rounding and their overflow.
  The dataclass has no \<open>__post_init__\<close>: building a configuration runs no check at all,
  and \<open>validate\<close> is a separate method the caller has to invoke.
\<close>

record QuotexConfig =
  email :: string
  password :: string
  ping_interval :: real
  ping_timeout :: real
  reconnect_max_retries :: int
  reconnect_base_delay :: real
  reconnect_max_delay :: real
  reconnect_exponential_base :: real
  min_payout :: real
  preferred_assets :: "string list"
  request_queue_maxsize :: int
  callback_timeout :: real
  dry_run :: bool
  default_stake :: real
  balance_update_interval :: real
  log_level :: string

text \<open>The field defaults of the dataclass, with the two environment variables passed in.\<close>

definition default_config :: "string \<Rightarrow> string \<Rightarrow> QuotexConfig" where
  "default_config env_email env_password =
     \<lparr> email = env_email, password = env_password,
       ping_interval = 30, ping_timeout = 10,
       reconnect_max_retries = 10, reconnect_base_delay = 1,
       reconnect_max_delay = 300, reconnect_exponential_base = 2,
       min_payout = 80, preferred_assets = [''EURUSD'', ''GBPUSD'', ''USDJPY''],
       request_queue_maxsize = 100, callback_timeout = 30,
       dry_run = False, default_stake = 1, balance_update_interval = 5,
       log_level = ''INFO'' \<rparr>"

text \<open>
  The exceptions that occur. \<open>CancelledError\<close> derives from \<open>BaseException\<close> only, so an
  \<open>except Exception\<close> clause does not catch it.
\<close>

datatype exn =
    ValueError string
  | TimeoutError
  | KeyError string
  | OverflowError
  | CancelledError

definition is_exception :: "exn \<Rightarrow> bool" where
  "is_exception e = (e \<noteq> CancelledError)"

text \<open>\<open>QuotexConfig.validate\<close>: four checks, in the order of the source.\<close>

definition validate :: "QuotexConfig \<Rightarrow> exn + unit" where
  "validate cfg =
     (if \<not> dry_run cfg \<and> (email cfg = [] \<or> password cfg = [])
        then Inl (ValueError ''Email and password are required when not in dry run mode'')
      else if ping_interval cfg \<le> 0
        then Inl (ValueError ''ping_interval must be positive'')
      else if reconnect_base_delay cfg \<le> 0
        then Inl (ValueError ''reconnect_base_delay must be positive'')
      else if min_payout cfg < 0 \<or> min_payout cfg > 100
        then Inl (ValueError ''min_payout must be between 0 and 100'')
      else Inr ())"

section \<open>Floating-point arithmetic\<close>

text \<open>
  A Python float is an IEEE 754 double: zero, or \<open>m * 2 ^ e\<close> with an integer \<open>m\<close> of at
  most 53 bits and \<open>e\<close> from -1074 to 971. The largest one is \<open>float_max\<close>.
\<close>

definition float_max :: real where
  "float_max = (2 ^ 53 - 1) * 2 ^ 971"

text \<open>Rounding to the nearest integer, a tie going to the even one.\<close>

definition round_half_even :: "real \<Rightarrow> int" where
  "round_half_even y =
     (let n = \<lfloor>y\<rfloor> in
      if y - of_int n < 1 / 2 then n
      else if 1 / 2 < y - of_int n then n + 1
      else if even n then n else n + 1)"

text \<open>
  The exponent of the last binary place that a double near \<open>x\<close> has: 52 places below
  the leading one, and never below the place of the subnormal numbers.
\<close>

definition ulp_exponent :: "real \<Rightarrow> int" where
  "ulp_exponent x = max (\<lfloor>log 2 \<bar>x\<bar>\<rfloor> - 52) (- 1074)"

text \<open>
  The exact result of an operation rounded to that place. A result whose absolute value
  exceeds \<open>float_max\<close> stands for an infinity.
\<close>

definition to_float :: "real \<Rightarrow> real" where
  "to_float x =
     (if x = 0 then 0
      else of_int (round_half_even (x / 2 powi ulp_exponent x)) * 2 powi ulp_exponent x)"

text \<open>
  \<open>x ** n\<close> for a float and a non-negative int: the power, rounded (the power function of
  the C library is taken to round correctly, and the exponent to be small enough to be
  a float itself); Python raises \<open>OverflowError\<close> when the result is out of range.
  \<open>x * y\<close> rounds and does not raise.
\<close>

definition float_pow :: "real \<Rightarrow> nat \<Rightarrow> exn + real" where
  "float_pow x n =
     (let p = to_float (x ^ n) in
      if float_max < \<bar>p\<bar> then Inl OverflowError else Inr p)"

definition float_mul :: "real \<Rightarrow> real \<Rightarrow> real" where
  "float_mul x y = to_float (x * y)"

section \<open>Back-off delay (watchdog.py)\<close>

text \<open>
  \<open>ConnectionWatchdog._calculate_backoff_delay\<close>; it reads only the configuration. The
  power is taken first, then the product, then the minimum.
\<close>

definition calculate_backoff_delay :: "QuotexConfig \<Rightarrow> nat \<Rightarrow> exn + real" where
  "calculate_backoff_delay cfg retry_count =
     (case float_pow (reconnect_exponential_base cfg) retry_count of
        Inl e \<Rightarrow> Inl e
      | Inr p \<Rightarrow>
          let delay = float_mul (reconnect_base_delay cfg) p
          in Inr (min delay (reconnect_max_delay cfg)))"

section \<open>The client (client.py)\<close>

datatype ConnectionState = DISCONNECTED | CONNECTING | CONNECTED | RECONNECTING

datatype api = DryRunAPI | Quotex

text \<open>
  What the client does that an observer can see, in order: every assignment to
  \<open>_state\<close>, every call into the session behind \<open>_api\<close>, and where \<open>_connection_lock\<close>
  is taken and released. In dry-run mode the session is the simulated one (a pause and
  a fresh \<open>DryRunAPI\<close>), whose connection cannot fail.
\<close>

datatype client_event =
    StateSet ConnectionState
  | SessionConnect api
  | SessionClose
  | SessionPing
  | LockAcquired
  | LockReleased

record PyQuotexClient =
  config :: QuotexConfig
  api_obj :: "api option"
  state :: ConnectionState
  trace :: "client_event list"

definition new_client :: "QuotexConfig \<Rightarrow> PyQuotexClient" where
  "new_client cfg = \<lparr> config = cfg, api_obj = None, state = DISCONNECTED, trace = [] \<rparr>"

definition is_connected :: "PyQuotexClient \<Rightarrow> bool" where
  "is_connected c = (state c = CONNECTED)"

definition set_state :: "ConnectionState \<Rightarrow> PyQuotexClient \<Rightarrow> PyQuotexClient" where
  "set_state s c = c\<lparr> state := s, trace := trace c @ [StateSet s] \<rparr>"

definition emit :: "client_event \<Rightarrow> PyQuotexClient \<Rightarrow> PyQuotexClient" where
  "emit e c = c\<lparr> trace := trace c @ [e] \<rparr>"

text \<open>
  The behaviour of the remote session is not part of the program; each operation takes
  what happens this time as an argument. For \<open>connect\<close>: the session accepts, refuses
  with a reason or raises, or already the import of the library or the constructor of
  \<open>Quotex\<close> raises, before there is a session to call.
\<close>

datatype connect_outcome =
    ConnectOk
  | ConnectRefused string
  | ConnectRaises string
  | ConnectSetupRaises string

text \<open>
  A coroutine that waits resumes with what it waited for, or its task is cancelled while
  it waits and \<open>CancelledError\<close> is raised at the \<open>await\<close>.
\<close>

datatype 'a awaited = Resumed 'a | Cancelled

datatype close_outcome = CleanupRaises | CloseOk | CloseRaises

datatype ping_outcome = PingBalance "real option" | PingTimeout | PingRaises

text \<open>
  \<open>PyQuotexClient.connect\<close>. The whole body runs under \<open>_connection_lock\<close>, which
  \<open>async with\<close> releases on every way out. The body waits once: in the pause of the
  dry run, or for the thread that runs the session's \<open>connect\<close>; \<open>_api\<close> is assigned
  before the latter and after the former. A cancellation passes the \<open>except Exception\<close>
  clause, so the state stays as it was at the wait and nothing is returned.
  The lock makes the bodies of \<open>connect\<close> and \<open>disconnect\<close> exclude each other, so
  each of them is one step of the model, which starts when the lock is free; a
  cancellation while the call still waits for the lock changes nothing.
\<close>

definition session_called :: "PyQuotexClient \<Rightarrow> PyQuotexClient" where
  "session_called c = (emit (SessionConnect Quotex) c)\<lparr> api_obj := Some Quotex \<rparr>"

definition connect ::
    "connect_outcome awaited \<Rightarrow> PyQuotexClient \<Rightarrow> (exn + bool) \<times> PyQuotexClient" where
  "connect aw c =
     (let c0 = emit LockAcquired c in
      if state c0 = CONNECTED then (Inr True, emit LockReleased c0)
      else
        let c1 = set_state CONNECTING c0 in
        if dry_run (config c1) then
          (case aw of
             Cancelled \<Rightarrow> (Inl CancelledError, emit LockReleased c1)
           | Resumed out \<Rightarrow>
               (Inr True,
                emit LockReleased
                  (set_state CONNECTED
                     ((emit (SessionConnect DryRunAPI) c1)\<lparr> api_obj := Some DryRunAPI \<rparr>))))
        else
          (case aw of
             Cancelled \<Rightarrow> (Inl CancelledError, emit LockReleased (session_called c1))
           | Resumed ConnectOk \<Rightarrow>
               (Inr True, emit LockReleased (set_state CONNECTED (session_called c1)))
           | Resumed (ConnectRefused reason) \<Rightarrow>
               (Inr False, emit LockReleased (set_state DISCONNECTED (session_called c1)))
           | Resumed (ConnectRaises e) \<Rightarrow>
               (Inr False, emit LockReleased (set_state DISCONNECTED (session_called c1)))
           | Resumed (ConnectSetupRaises e) \<Rightarrow>
               (Inr False, emit LockReleased (set_state DISCONNECTED c1))))"

text \<open>
  \<open>PyQuotexClient.disconnect\<close>, under the same lock. Subscription bookkeeping is not
  modelled beyond the fact that cleaning it up may raise.
\<close>

definition disconnect :: "close_outcome \<Rightarrow> PyQuotexClient \<Rightarrow> PyQuotexClient" where
  "disconnect out c =
     (let c0 = emit LockAcquired c in
      if state c0 = DISCONNECTED then emit LockReleased c0
      else
        emit LockReleased
          (case out of
             CleanupRaises \<Rightarrow> set_state DISCONNECTED c0
           | CloseOk \<Rightarrow>
               (if api_obj c0 = None \<or> dry_run (config c0)
                  then set_state DISCONNECTED (c0\<lparr> api_obj := None \<rparr>)
                else set_state DISCONNECTED ((emit SessionClose c0)\<lparr> api_obj := None \<rparr>))
           | CloseRaises \<Rightarrow>
               (if api_obj c0 = None \<or> dry_run (config c0)
                  then set_state DISCONNECTED (c0\<lparr> api_obj := None \<rparr>)
                else set_state DISCONNECTED (emit SessionClose c0))))"

text \<open>\<open>PyQuotexClient.ping\<close>. It takes no lock and never assigns \<open>_state\<close>.\<close>

definition ping :: "ping_outcome \<Rightarrow> PyQuotexClient \<Rightarrow> bool \<times> PyQuotexClient" where
  "ping out c =
     (if \<not> is_connected c then (False, c)
      else if dry_run (config c) then (True, c)
      else
        let c1 = emit SessionPing c in
        (case out of
           PingBalance balance \<Rightarrow> (balance \<noteq> None, c1)
         | PingTimeout \<Rightarrow> (False, c1)
         | PingRaises \<Rightarrow> (False, c1)))"

text \<open>A caller's sequence of operations on one client.\<close>

datatype client_op =
    Connect "connect_outcome awaited"
  | Disconnect close_outcome
  | Ping ping_outcome

fun client_step :: "client_op \<Rightarrow> PyQuotexClient \<Rightarrow> PyQuotexClient" where
  "client_step (Connect aw) c = snd (connect aw c)"
| "client_step (Disconnect out) c = disconnect out c"
| "client_step (Ping out) c = snd (ping out c)"

fun client_run :: "client_op list \<Rightarrow> PyQuotexClient \<Rightarrow> PyQuotexClient" where
  "client_run [] c = c"
| "client_run (op # ops) c = client_run ops (client_step op c)"

text \<open>
  Whether a trace respects the lock: it is never taken while it is held, every call of
  the session's \<open>connect\<close> or \<open>close\<close> and every assignment to the state happens while it
  is held, and at the end it is free. The flag says whether it is held at the start.
\<close>

fun locked_trace :: "bool \<Rightarrow> client_event list \<Rightarrow> bool" where
  "locked_trace held [] = (\<not> held)"
| "locked_trace held (LockAcquired # es) = (\<not> held \<and> locked_trace True es)"
| "locked_trace held (LockReleased # es) = (held \<and> locked_trace False es)"
| "locked_trace held (SessionPing # es) = locked_trace held es"
| "locked_trace held (e # es) = (held \<and> locked_trace held es)"

section \<open>The watchdog (watchdog.py)\<close>

text \<open>
  How the optional \<open>on_reconnect\<close> callable behaves when it is called. An exception it
  raises is caught and logged at the call site.
\<close>

datatype hook = HookReturns | HookRaises

text \<open>
  What the watchdog does, in order: its sleeps, its calls into the client with the
  boolean they returned, the hook call and the final error log of an exhausted
  reconnection sequence.
\<close>

datatype watchdog_event =
    Sleep real
  | CallDisconnect
  | CallConnect bool
  | HookCalled
  | ReportExhausted

record ConnectionWatchdog =
  client :: PyQuotexClient
  wd_config :: QuotexConfig
  on_reconnect :: "hook option"
  running :: bool
  consecutive_failures :: nat
  total_reconnects :: nat
  wd_trace :: "watchdog_event list"

definition new_watchdog ::
    "PyQuotexClient \<Rightarrow> QuotexConfig \<Rightarrow> hook option \<Rightarrow> ConnectionWatchdog" where
  "new_watchdog c cfg h =
     \<lparr> client = c, wd_config = cfg, on_reconnect = h, running = False,
       consecutive_failures = 0, total_reconnects = 0, wd_trace = [] \<rparr>"

definition log_event :: "watchdog_event \<Rightarrow> ConnectionWatchdog \<Rightarrow> ConnectionWatchdog" where
  "log_event e w = w\<lparr> wd_trace := wd_trace w @ [e] \<rparr>"

definition start :: "ConnectionWatchdog \<Rightarrow> ConnectionWatchdog" where
  "start w = (if running w then w else w\<lparr> running := True \<rparr>)"

definition stop :: "ConnectionWatchdog \<Rightarrow> ConnectionWatchdog" where
  "stop w = (if \<not> running w then w else w\<lparr> running := False \<rparr>)"

text \<open>\<open>_check_connection\<close>: the probe. \<open>client.ping\<close> catches every exception itself.\<close>

definition check_connection ::
    "ping_outcome \<Rightarrow> ConnectionWatchdog \<Rightarrow> bool \<times> ConnectionWatchdog" where
  "check_connection out w =
     (if state (client w) \<noteq> CONNECTED then (False, w)
      else (let (r, c) = ping out (client w) in (r, w\<lparr> client := c \<rparr>)))"

text \<open>The optional hook call after a successful reconnection.\<close>

definition invoke_on_reconnect :: "ConnectionWatchdog \<Rightarrow> ConnectionWatchdog" where
  "invoke_on_reconnect w =
     (case on_reconnect w of None \<Rightarrow> w | Some h \<Rightarrow> log_event HookCalled w)"

text \<open>
  What happens around one reconnection attempt: whether \<open>stop\<close> arrives during the
  attempt and at which of its waits, and what the session answers to the close and to
  the connect. \<open>stop\<close> clears \<open>_running\<close> and cancels the monitor task, which raises
  \<open>CancelledError\<close> at the wait the task is in. A stop that arrives while \<open>disconnect\<close>,
  the hook or the probe waits is not modelled.
\<close>

datatype stop_point = DuringBackoff | DuringSettle | DuringConnect

record attempt_env =
  stop_requested :: bool
  stop_point :: stop_point
  close_out :: close_outcome
  connect_out :: connect_outcome

definition stopped_at :: "stop_point \<Rightarrow> attempt_env \<Rightarrow> bool" where
  "stopped_at p env = (stop_requested env \<and> stop_point env = p)"

text \<open>
  The body of the \<open>while\<close> loop of \<open>_handle_disconnect\<close> from the back-off sleep on:
  the attempt reconnects, fails (the loop goes on with the next retry count), or is left
  by an exception that the \<open>try\<close> does not catch. \<open>client.disconnect\<close> and
  \<open>client.connect\<close> catch every \<open>Exception\<close> themselves.
\<close>

datatype attempt_result = Reconnected | AttemptFailed | Interrupted exn

definition reconnect_attempt ::
    "attempt_env \<Rightarrow> real \<Rightarrow> ConnectionWatchdog \<Rightarrow> attempt_result \<times> ConnectionWatchdog" where
  "reconnect_attempt env delay w =
     (let w1 = log_event (Sleep delay) w in
      if stopped_at DuringBackoff env then (Interrupted CancelledError, w1\<lparr> running := False \<rparr>)
      else
        let w2 = log_event CallDisconnect
                   (w1\<lparr> client := disconnect (close_out env) (client w1) \<rparr>);
            w3 = log_event (Sleep 1) w2
        in
          if stopped_at DuringSettle env
            then (Interrupted CancelledError, w3\<lparr> running := False \<rparr>)
          else
            let res = connect (if stopped_at DuringConnect env then Cancelled
                               else Resumed (connect_out env)) (client w3);
                w4 = w3\<lparr> client := snd res \<rparr>
            in
              (case fst res of
                 Inl e \<Rightarrow>
                   (if is_exception e then (AttemptFailed, w4)
                    else (Interrupted e, w4\<lparr> running := False \<rparr>))
               | Inr success \<Rightarrow>
                   let w5 = log_event (CallConnect success) w4 in
                   if success then
                     (Reconnected,
                      invoke_on_reconnect
                        (w5\<lparr> total_reconnects := total_reconnects w5 + 1,
                             consecutive_failures := 0 \<rparr>))
                   else (AttemptFailed, w5)))"

text \<open>
  The \<open>while\<close> loop of \<open>_handle_disconnect\<close> together with the check that follows it.
  The delay is computed before the \<open>try\<close>, so an exception of
  \<open>_calculate_backoff_delay\<close> leaves \<open>_handle_disconnect\<close>. The result says which
  exception left it, if any.
\<close>

function reconnect_loop ::
    "(nat \<Rightarrow> attempt_env) \<Rightarrow> nat \<Rightarrow> ConnectionWatchdog
       \<Rightarrow> exn option \<times> ConnectionWatchdog" where
  "reconnect_loop env retry_count w =
     (if running w \<and> int retry_count < reconnect_max_retries (wd_config w) then
        (case calculate_backoff_delay (wd_config w) retry_count of
           Inl e \<Rightarrow> (Some e, w)
         | Inr delay \<Rightarrow>
             (case reconnect_attempt (env retry_count) delay w of
                (Reconnected, w') \<Rightarrow> (None, w')
              | (Interrupted e, w') \<Rightarrow> (Some e, w')
              | (AttemptFailed, w') \<Rightarrow> reconnect_loop env (Suc retry_count) w'))
      else if reconnect_max_retries (wd_config w) \<le> int retry_count
        then (None, log_event ReportExhausted w)
      else (None, w))"
  by pat_completeness auto
termination
proof (relation "measure (\<lambda>(env, n, w). nat (reconnect_max_retries (wd_config w) - int n))")
  show "wf (measure (\<lambda>(env, n, w). nat (reconnect_max_retries (wd_config w) - int n)))"
    by simp
next
  fix env :: "nat \<Rightarrow> attempt_env" and retry_count w delay x y
  assume guard: "running w \<and> int retry_count < reconnect_max_retries (wd_config w)"
    and eq: "(x, y) = reconnect_attempt (env retry_count) delay w"
  have "wd_config (snd (reconnect_attempt (env retry_count) delay w)) = wd_config w"
    by (simp add: reconnect_attempt_def log_event_def invoke_on_reconnect_def Let_def
             split: sum.splits option.splits)
  with eq [symmetric] have "wd_config y = wd_config w"
    by simp
  with guard
  show "((env, Suc retry_count, y), env, retry_count, w)
          \<in> measure (\<lambda>(env, n, w). nat (reconnect_max_retries (wd_config w) - int n))"
    by simp
qed

declare reconnect_loop.simps [simp del]

definition handle_disconnect ::
    "(nat \<Rightarrow> attempt_env) \<Rightarrow> ConnectionWatchdog \<Rightarrow> exn option \<times> ConnectionWatchdog" where
  "handle_disconnect env w = reconnect_loop env 0 w"

text \<open>
  One iteration of \<open>_monitor_loop\<close>, and the loop over the ticks that occur. An
  \<open>Exception\<close> that leaves \<open>_handle_disconnect\<close> is logged and followed by a sleep of one
  second; a cancellation ends the loop.
\<close>

record tick_env =
  tick_stop :: bool
  ping_out :: ping_outcome
  attempts :: "nat \<Rightarrow> attempt_env"

definition monitor_tick :: "tick_env \<Rightarrow> ConnectionWatchdog \<Rightarrow> ConnectionWatchdog" where
  "monitor_tick env w =
     (let w1 = log_event (Sleep (ping_interval (wd_config w))) w in
      if tick_stop env then w1\<lparr> running := False \<rparr>
      else
        let probe = check_connection (ping_out env) w1;
            w2 = snd probe
        in
          if fst probe then
            (if consecutive_failures w2 > 0 then w2\<lparr> consecutive_failures := 0 \<rparr> else w2)
          else
            (case handle_disconnect (attempts env)
                    (w2\<lparr> consecutive_failures := consecutive_failures w2 + 1 \<rparr>) of
               (None, w3) \<Rightarrow> w3
             | (Some e, w3) \<Rightarrow> (if is_exception e then log_event (Sleep 1) w3 else w3)))"

fun monitor_loop :: "tick_env list \<Rightarrow> ConnectionWatchdog \<Rightarrow> ConnectionWatchdog" where
  "monitor_loop [] w = w"
| "monitor_loop (e # es) w = (if running w then monitor_loop es (monitor_tick e w) else w)"

text \<open>
  \<open>force_reconnect\<close>: one disconnect, settle, connect cycle on demand. It runs in the
  task of its caller, which \<open>stop\<close> does not cancel; \<open>disconnect\<close> and a \<open>connect\<close> that
  is resumed raise nothing, so the handler of \<open>force_reconnect\<close> is not reached.
\<close>

definition force_reconnect ::
    "close_outcome \<Rightarrow> connect_outcome \<Rightarrow> ConnectionWatchdog \<Rightarrow> bool \<times> ConnectionWatchdog" where
  "force_reconnect cl co w =
     (let w1 = log_event CallDisconnect (w\<lparr> client := disconnect cl (client w) \<rparr>);
          w2 = log_event (Sleep 1) w1;
          res = connect (Resumed co) (client w2);
          success = (fst res = Inr True);
          w3 = log_event (CallConnect success) (w2\<lparr> client := snd res \<rparr>)
      in
        if success then
          (True, invoke_on_reconnect
                   (w3\<lparr> total_reconnects := total_reconnects w3 + 1,
                        consecutive_failures := 0 \<rparr>))
        else (False, w3))"

text \<open>
  The number of reconnections in a watchdog trace: the calls of \<open>client.connect\<close> made
  by the watchdog that returned \<open>True\<close>.
\<close>

definition reconnections :: "watchdog_event list \<Rightarrow> nat" where
  "reconnections tr = length (filter (\<lambda>e. e = CallConnect True) tr)"

subsection \<open>A concrete watchdog and concrete environments\<close>

text \<open>
  A watchdog started on a connected, non-simulated client with three retries, an
  environment in which the session refuses every connection, one in which it accepts,
  one in which \<open>stop\<close> arrives while the first connect waits, and monitor ticks built
  from them.
\<close>

definition refusing :: "nat \<Rightarrow> attempt_env" where
  "refusing i = \<lparr> stop_requested = False, stop_point = DuringBackoff, close_out = CloseOk,
                  connect_out = ConnectRefused ''refused'' \<rparr>"

definition accepting :: "nat \<Rightarrow> attempt_env" where
  "accepting i = \<lparr> stop_requested = False, stop_point = DuringBackoff, close_out = CloseOk,
                   connect_out = ConnectOk \<rparr>"

definition stopping :: "nat \<Rightarrow> attempt_env" where
  "stopping i = \<lparr> stop_requested = True, stop_point = DuringConnect, close_out = CloseOk,
                  connect_out = ConnectOk \<rparr>"

definition failing_tick :: tick_env where
  "failing_tick = \<lparr> tick_stop = False, ping_out = PingTimeout, attempts = refusing \<rparr>"

definition recovering_tick :: tick_env where
  "recovering_tick = \<lparr> tick_stop = False, ping_out = PingTimeout, attempts = accepting \<rparr>"

definition stopped_tick :: tick_env where
  "stopped_tick = \<lparr> tick_stop = True, ping_out = PingTimeout, attempts = refusing \<rparr>"

definition test_config :: QuotexConfig where
  "test_config = (default_config ''user'' ''secret'')\<lparr> reconnect_max_retries := 3 \<rparr>"

definition test_watchdog :: ConnectionWatchdog where
  "test_watchdog =
     start (new_watchdog (snd (connect (Resumed ConnectOk) (new_client test_config)))
              test_config None)"

text \<open>A configuration whose multiplier overflows at the third attempt.\<close>

definition steep_config :: QuotexConfig where
  "steep_config = test_config\<lparr> reconnect_exponential_base := 2 ^ 600 \<rparr>"

definition steep_watchdog :: ConnectionWatchdog where
  "steep_watchdog =
     start (new_watchdog (snd (connect (Resumed ConnectOk) (new_client steep_config)))
              steep_config None)"

section \<open>The request queue (async_queue.py)\<close>

datatype RequestType =
    GET_CANDLES
  | SUBSCRIBE_CANDLES
  | UNSUBSCRIBE_CANDLES
  | PLACE_TRADE
  | PLACE_TRADE_AND_WAIT
  | GET_BALANCE
  | GET_ASSETS

text \<open>Python values: the parameters of a request and the data of a response.\<close>

datatype pyval =
    PyNone
  | PyBool bool
  | PyNum real
  | PyStr string
  | PyList "pyval list"
  | PyDict "(string \<times> pyval) list"
  | PyCallable

text \<open>
  The callback of a request is a plain function, called on the spot, or a coroutine
  function, which the worker awaits. Either may raise; the worker catches and logs it.
\<close>

datatype callback_outcome = CallbackReturns | CallbackRaises

datatype callback = PlainCallback callback_outcome | CoroutineCallback callback_outcome

text \<open>
  \<open>Request\<close> and \<open>Response\<close>, without their timestamps. A request carries a future or
  not; the state of the future is kept by the queue under the request's id.
\<close>

record Request =
  request_id :: string
  request_type :: RequestType
  params :: "(string \<times> pyval) list"
  callback :: "callback option"
  future :: bool

record Response =
  response_id :: string
  response_type :: RequestType
  success :: bool
  data :: pyval
  error :: "string option"

text \<open>
  What the awaited call of a client method does, seen from \<open>_process_request\<close>: it
  returns data or raises an \<open>Exception\<close>.
\<close>

datatype op_outcome = OpReturns pyval | OpRaises string



text \<open>
  The keys \<open>_process_request\<close> reads with \<open>params[key]\<close>, in the order it reads them;
  the other keys are read with \<open>params.get\<close> and a default.
\<close>

fun required_params :: "RequestType \<Rightarrow> string list" where
  "required_params GET_CANDLES = [''asset'']"
| "required_params SUBSCRIBE_CANDLES = [''asset'', ''period'', ''candle_callback'']"
| "required_params UNSUBSCRIBE_CANDLES = [''asset'', ''period'']"
| "required_params PLACE_TRADE = [''asset'', ''amount'', ''direction'']"
| "required_params PLACE_TRADE_AND_WAIT = [''asset'', ''amount'', ''direction'']"
| "required_params GET_BALANCE = []"
| "required_params GET_ASSETS = []"

definition failed_response :: "Request \<Rightarrow> string \<Rightarrow> Response" where
  "failed_response r msg =
     \<lparr> response_id = request_id r, response_type = request_type r, success = False,
       data = PyNone, error = Some msg \<rparr>"

text \<open>
  \<open>_process_request\<close>. A missing key raises \<open>KeyError\<close> inside the \<open>try\<close>, whose text
  is the key in single quotes; an exception of the client method is caught in the same
  way. Every value of \<open>RequestType\<close> has its branch, so the final \<open>else\<close> is not reached.
\<close>

definition process_request :: "op_outcome \<Rightarrow> Request \<Rightarrow> Response" where
  "process_request out r =
     (case find (\<lambda>k. map_of (params r) k = None) (required_params (request_type r)) of
        Some k \<Rightarrow> failed_response r ([CHR 0x27] @ k @ [CHR 0x27])
      | None \<Rightarrow>
          (case out of
             OpReturns d \<Rightarrow>
               \<lparr> response_id = request_id r, response_type = request_type r,
                 success = True, data = d, error = None \<rparr>
           | OpRaises e \<Rightarrow> failed_response r e))"

text \<open>
  A worker of \<open>_worker_loop\<close> waits for a request, or is suspended in the client call
  for the request it took, or is suspended in the coroutine callback it awaits, with the
  response it built.
\<close>

datatype worker = Idle | Busy Request | InCallback Request Response

datatype future_state = Pending | Done Response | FutureCancelled

text \<open>
  The queue object: its fields, the state of the futures of its requests, and what has
  been handed out so far: the responses the workers built, those passed to a callback,
  and the responses \<open>submit_request\<close> made up itself for a caller.
\<close>

record AsyncRequestQueue =
  q_config :: QuotexConfig
  queue :: "Request list"
  q_running :: bool
  workers :: "worker list"
  processed_count :: nat
  failed_count :: nat
  futures :: "string \<Rightarrow> future_state option"
  callback_calls :: "Response list"
  responses :: "Response list"
  synthetic :: "Response list"

definition num_workers :: nat where
  "num_workers = 3"

definition new_queue :: "QuotexConfig \<Rightarrow> AsyncRequestQueue" where
  "new_queue cfg =
     \<lparr> q_config = cfg, queue = [], q_running = False, workers = [],
       processed_count = 0, failed_count = 0, futures = (\<lambda>k. None),
       callback_calls = [], responses = [], synthetic = [] \<rparr>"

definition queue_size :: "AsyncRequestQueue \<Rightarrow> nat" where
  "queue_size s = length (queue s)"

text \<open>\<open>asyncio.Queue.full\<close>: a \<open>maxsize\<close> of zero or less means no bound.\<close>

definition full :: "AsyncRequestQueue \<Rightarrow> bool" where
  "full s = (0 < request_queue_maxsize (q_config s)
             \<and> request_queue_maxsize (q_config s) \<le> int (length (queue s)))"

definition queue_start :: "AsyncRequestQueue \<Rightarrow> AsyncRequestQueue" where
  "queue_start s =
     (if q_running s then s
      else s\<lparr> q_running := True, workers := workers s @ replicate num_workers Idle \<rparr>)"

text \<open>
  \<open>stop\<close> cancels the worker tasks and clears the list. A cancelled worker leaves its
  loop at the wait it is in, also in the middle of a request: \<open>CancelledError\<close> passes
  the \<open>except Exception\<close> clauses of \<open>_process_request\<close> and of the callback call. The
  queue itself and the futures are not touched.
\<close>

definition queue_stop :: "AsyncRequestQueue \<Rightarrow> AsyncRequestQueue" where
  "queue_stop s =
     (if \<not> q_running s then s else s\<lparr> q_running := False, workers := [] \<rparr>)"

text \<open>
  \<open>submit_request\<close> builds the request, with a future when the caller wants to wait, and
  has two waits under one \<open>try\<close> with one handler for \<open>asyncio.TimeoutError\<close>.
\<close>

definition new_request ::
    "string \<Rightarrow> RequestType \<Rightarrow> (string \<times> pyval) list \<Rightarrow> callback option \<Rightarrow> bool \<Rightarrow> Request" where
  "new_request rid rtype ps cb wait_for_response =
     \<lparr> request_id = rid, request_type = rtype, params = ps, callback = cb,
       future = wait_for_response \<rparr>"

datatype submit_result = ReturnsId string | ReturnsResponse Response

definition enqueue :: "Request \<Rightarrow> AsyncRequestQueue \<Rightarrow> AsyncRequestQueue" where
  "enqueue r s =
     s\<lparr> queue := queue s @ [r],
        futures := (if future r then (futures s)(request_id r \<mapsto> Pending) else futures s) \<rparr>"

text \<open>
  The first wait, on \<open>put\<close>, at the moment it finds room or gives up after its second.
  The result is what \<open>submit_request\<close> returns or raises, or nothing yet when the call
  goes on to wait for the future.
\<close>

definition submit_put ::
    "Request \<Rightarrow> AsyncRequestQueue \<Rightarrow> (exn + submit_result) option \<times> AsyncRequestQueue" where
  "submit_put r s =
     (if full s then
        (if future r then
           (Some (Inr (ReturnsResponse (failed_response r ''Queue full''))),
            s\<lparr> synthetic := synthetic s @ [failed_response r ''Queue full''] \<rparr>)
         else (Some (Inl TimeoutError), s))
      else if future r then (None, enqueue r s)
      else (Some (Inr (ReturnsId (request_id r))), enqueue r s))"

text \<open>
  The second wait, on the future, at the moment it ends: the future has its result, or
  \<open>callback_timeout\<close> has passed, and then \<open>asyncio.wait_for\<close> cancels the future and
  the handler builds the response.
\<close>

definition submit_wait ::
    "Request \<Rightarrow> AsyncRequestQueue \<Rightarrow> (exn + submit_result) option \<times> AsyncRequestQueue" where
  "submit_wait r s =
     (case futures s (request_id r) of
        Some (Done response) \<Rightarrow> (Some (Inr (ReturnsResponse response)), s)
      | Some Pending \<Rightarrow>
          (Some (Inr (ReturnsResponse (failed_response r ''Queue full''))),
           s\<lparr> futures := (futures s)(request_id r \<mapsto> FutureCancelled),
              synthetic := synthetic s @ [failed_response r ''Queue full''] \<rparr>)
      | Some FutureCancelled \<Rightarrow> (None, s)
      | None \<Rightarrow> (None, s))"

text \<open>A worker takes the head of the queue.\<close>

definition worker_take :: "nat \<Rightarrow> AsyncRequestQueue \<Rightarrow> AsyncRequestQueue" where
  "worker_take i s =
     (if q_running s \<and> i < length (workers s) \<and> workers s ! i = Idle then
        (case queue s of
           [] \<Rightarrow> s
         | r # rest \<Rightarrow> s\<lparr> queue := rest, workers := (workers s)[i := Busy r] \<rparr>)
      else s)"

text \<open>\<open>set_result\<close> on the future of a request, unless the future is already done.\<close>

definition resolve_future :: "Request \<Rightarrow> Response \<Rightarrow> AsyncRequestQueue \<Rightarrow> AsyncRequestQueue" where
  "resolve_future r response s =
     (if future r \<and> futures s (request_id r) = Some Pending
        then s\<lparr> futures := (futures s)(request_id r \<mapsto> Done response) \<rparr>
      else s)"

text \<open>
  The client call of a worker returns or raises: the worker builds the response, counts
  it and calls the callback. After a plain callback, or without one, it goes on to
  resolve the future and to wait for the next request; a coroutine callback suspends
  it first.
\<close>

definition worker_finish :: "nat \<Rightarrow> op_outcome \<Rightarrow> AsyncRequestQueue \<Rightarrow> AsyncRequestQueue" where
  "worker_finish i out s =
     (if i < length (workers s) then
        (case workers s ! i of
           Busy r \<Rightarrow>
             let response = process_request out r;
                 s1 = (if success response
                       then s\<lparr> processed_count := processed_count s + 1 \<rparr>
                       else s\<lparr> failed_count := failed_count s + 1 \<rparr>);
                 s2 = s1\<lparr> responses := responses s1 @ [response] \<rparr>
             in
               (case callback r of
                  None \<Rightarrow>
                    (resolve_future r response s2)\<lparr> workers := (workers s2)[i := Idle] \<rparr>
                | Some (PlainCallback result) \<Rightarrow>
                    (resolve_future r response
                       (s2\<lparr> callback_calls := callback_calls s2 @ [response] \<rparr>))
                      \<lparr> workers := (workers s2)[i := Idle] \<rparr>
                | Some (CoroutineCallback result) \<Rightarrow>
                    s2\<lparr> callback_calls := callback_calls s2 @ [response],
                        workers := (workers s2)[i := InCallback r response] \<rparr>)
         | Idle \<Rightarrow> s
         | InCallback r response \<Rightarrow> s)
      else s)"

text \<open>The coroutine callback of a worker is over, by return or by exception.\<close>

definition callback_done :: "nat \<Rightarrow> AsyncRequestQueue \<Rightarrow> AsyncRequestQueue" where
  "callback_done i s =
     (if i < length (workers s) then
        (case workers s ! i of
           InCallback r response \<Rightarrow>
             (resolve_future r response s)\<lparr> workers := (workers s)[i := Idle] \<rparr>
         | Idle \<Rightarrow> s
         | Busy r \<Rightarrow> s)
      else s)"

text \<open>
  The tasks run on one event loop, so what happens to the queue is an interleaving of
  these steps, in any order.
\<close>

datatype queue_event =
    Start
  | Stop
  | Submit Request
  | WaitEnds Request
  | Take nat
  | Finish nat op_outcome
  | CallbackDone nat

fun queue_step :: "queue_event \<Rightarrow> AsyncRequestQueue \<Rightarrow> AsyncRequestQueue" where
  "queue_step Start s = queue_start s"
| "queue_step Stop s = queue_stop s"
| "queue_step (Submit r) s = snd (submit_put r s)"
| "queue_step (WaitEnds r) s = snd (submit_wait r s)"
| "queue_step (Take i) s = worker_take i s"
| "queue_step (Finish i out) s = worker_finish i out s"
| "queue_step (CallbackDone i) s = callback_done i s"

fun queue_run :: "queue_event list \<Rightarrow> AsyncRequestQueue \<Rightarrow> AsyncRequestQueue" where
  "queue_run [] s = s"
| "queue_run (e # es) s = queue_run es (queue_step e s)"

text \<open>The requests that workers hold without a response yet.\<close>

fun busy_requests :: "worker list \<Rightarrow> Request list" where
  "busy_requests [] = []"
| "busy_requests (Busy r # ws) = r # busy_requests ws"
| "busy_requests (w # ws) = busy_requests ws"

text \<open>The requests a run accepts into the queue, in order.\<close>

fun accepted_requests :: "queue_event list \<Rightarrow> AsyncRequestQueue \<Rightarrow> Request list" where
  "accepted_requests [] s = []"
| "accepted_requests (Submit r # es) s =
     (if full s then [] else [r]) @ accepted_requests es (queue_step (Submit r) s)"
| "accepted_requests (e # es) s = accepted_requests es (queue_step e s)"

text \<open>
  The requests that a worker held, without a response yet, when a run stopped the
  queue.
\<close>

fun dropped_requests :: "queue_event list \<Rightarrow> AsyncRequestQueue \<Rightarrow> Request list" where
  "dropped_requests [] s = []"
| "dropped_requests (Stop # es) s =
     (if q_running s then busy_requests (workers s) else [])
       @ dropped_requests es (queue_step Stop s)"
| "dropped_requests (e # es) s = dropped_requests es (queue_step e s)"

text \<open>
  Where the requests of the queue are: the ids of those waiting in the queue or held by
  a worker without a response, and the ids of the responses the workers built.
\<close>

definition outstanding :: "AsyncRequestQueue \<Rightarrow> string multiset" where
  "outstanding s =
     mset (map request_id (queue s)) + mset (map request_id (busy_requests (workers s)))"

definition answered :: "AsyncRequestQueue \<Rightarrow> string multiset" where
  "answered s = mset (map response_id (responses s))"

text \<open>
  The work that is left for the workers: a waiting request needs three of their steps
  at most (take, finish, end of the callback), one in the client call two, one in its
  callback one. A step of a worker is possible when the worker is in the state for it.
\<close>

fun worker_load :: "worker \<Rightarrow> nat" where
  "worker_load Idle = 0"
| "worker_load (Busy r) = 2"
| "worker_load (InCallback r response) = 1"

definition pending_work :: "AsyncRequestQueue \<Rightarrow> nat" where
  "pending_work s = 3 * length (queue s) + sum_list (map worker_load (workers s))"

fun is_busy :: "worker \<Rightarrow> bool" where
  "is_busy (Busy r) = True"
| "is_busy w = False"

fun in_callback :: "worker \<Rightarrow> bool" where
  "in_callback (InCallback r response) = True"
| "in_callback w = False"

fun enabled :: "queue_event \<Rightarrow> AsyncRequestQueue \<Rightarrow> bool" where
  "enabled (Take i) s =
     (q_running s \<and> i < length (workers s) \<and> workers s ! i = Idle \<and> queue s \<noteq> [])"
| "enabled (Finish i out) s = (i < length (workers s) \<and> is_busy (workers s ! i))"
| "enabled (CallbackDone i) s = (i < length (workers s) \<and> in_callback (workers s ! i))"
| "enabled e s = False"

subsection \<open>Concrete requests and runs of the queue\<close>

definition balance_request :: "nat \<Rightarrow> bool \<Rightarrow> Request" where
  "balance_request n wait =
     new_request (replicate (Suc n) (CHR ''r'')) GET_BALANCE [] None wait"




text \<open>One request is taken by a worker: the run up to the moment the worker holds it.\<close>

definition taken_by_worker :: "queue_event list" where
  "taken_by_worker = [Start, Submit (balance_request 0 True), Take 0]"


text \<open>The queue is stopped before the worker is done.\<close>

definition stopped_in_flight :: "queue_event list" where
  "stopped_in_flight = taken_by_worker @ [Stop]"

text \<open>After the stop the queue is started again and each worker has its turn.\<close>

definition restarted :: "queue_event list" where
  "restarted =
     stopped_in_flight
       @ [Start, Take 0, Finish 0 (OpReturns (PyNum 100)), Take 1,
          Finish 1 (OpReturns (PyNum 100)), Take 2, Finish 2 (OpReturns (PyNum 100))]"

text \<open>
  A request with a future and a coroutine callback; the queue is stopped while the
  worker awaits the callback.
\<close>

definition notified_request :: Request where
  "notified_request =
     new_request ''n'' GET_BALANCE [] (Some (CoroutineCallback CallbackReturns)) True"

definition awaiting_callback :: "queue_event list" where
  "awaiting_callback =
     [Start, Submit notified_request, Take 0, Finish 0 (OpReturns (PyNum 100))]"

definition stopped_in_callback :: "queue_event list" where
  "stopped_in_callback = awaiting_callback @ [Stop]"

text \<open>
  The caller's wait for the response times out before a worker takes the request; the
  worker answers it afterwards.
\<close>

definition answered_late :: "queue_event list" where
  "answered_late =
     [Start, Submit notified_request, WaitEnds notified_request, Take 0,
      Finish 0 (OpReturns (PyNum 100)), CallbackDone 0]"

definition small_config :: QuotexConfig where
  "small_config = (default_config ''user'' ''secret'')\<lparr> request_queue_maxsize := 1 \<rparr>"

section \<open>Properties of the floating-point operations\<close>

lemma two_powr_int: "(2::real) powr (of_int e) = 2 powi e"
  by (simp add: powr_real_of_int power_int_def power_one_over inverse_eq_divide)

lemma floor_log2_eq:
  fixes a :: real
  assumes "0 < a" "2 powi e \<le> a" "a < 2 powi (e + 1)"
  shows "\<lfloor>log 2 a\<rfloor> = e"
proof (rule floor_unique)
  show "of_int e \<le> log 2 a"
    using assms(1,2) by (simp add: le_log_iff two_powr_int)
  have "(2::real) powr (of_int e + 1) = 2 powi (e + 1)"
    using two_powr_int [of "e + 1"] by simp
  then show "log 2 a < of_int e + 1"
    using assms(1,3) by (simp add: log_less_iff)
qed

lemma round_half_even_of_int [simp]: "round_half_even (of_int n) = n"
  by (simp add: round_half_even_def)

text \<open>A number with a 53-bit mantissa and an exponent in range is a double.\<close>

lemma to_float_exact:
  fixes m e :: int
  assumes "2 ^ 52 \<le> \<bar>m\<bar>" "\<bar>m\<bar> < 2 ^ 53" "- 1074 \<le> e"
  shows "to_float (of_int m * 2 powi e) = of_int m * 2 powi e"
proof -
  let ?x = "of_int m * (2::real) powi e"
  have pos: "(0::real) < 2 powi e" by (simp add: zero_less_power_int)
  have m0: "m \<noteq> 0" using assms(1) by auto
  have ax: "\<bar>?x\<bar> = of_int \<bar>m\<bar> * 2 powi e"
    using pos by (simp add: abs_mult)
  have lo: "(2::real) powi (e + 52) \<le> \<bar>?x\<bar>"
  proof -
    have "(2::real) powi (e + 52) = 2 ^ 52 * 2 powi e"
      by (simp add: power_int_add)
    also have "\<dots> \<le> of_int \<bar>m\<bar> * 2 powi e"
      using assms(1) pos
      by (intro mult_right_mono)
         (simp_all add: of_int_le_numeral_power_cancel_iff [symmetric]
                   del: of_int_le_numeral_power_cancel_iff)
    finally show ?thesis using ax by simp
  qed
  have hi: "\<bar>?x\<bar> < (2::real) powi (e + 52 + 1)"
  proof -
    have "of_int \<bar>m\<bar> * (2::real) powi e < 2 ^ 53 * 2 powi e"
      using assms(2) pos by (intro mult_strict_right_mono) simp_all
    also have "\<dots> = 2 powi (e + 52 + 1)"
      by (simp add: power_int_add)
    finally show ?thesis using ax by simp
  qed
  have "\<lfloor>log 2 \<bar>?x\<bar>\<rfloor> = e + 52"
    using m0 pos lo hi by (intro floor_log2_eq) simp_all
  then have ue: "ulp_exponent ?x = e"
    using assms(3) by (simp add: ulp_exponent_def)
  have "?x \<noteq> 0" using m0 pos by simp
  then show ?thesis
    using pos by (simp add: to_float_def ue)
qed

lemma to_float_power2 [simp]: "to_float (2 ^ n) = 2 ^ n"
proof -
  have "to_float (of_int (2 ^ 52) * 2 powi (int n - 52)) = of_int (2 ^ 52) * 2 powi (int n - 52)"
    by (rule to_float_exact) simp_all
  moreover have "of_int (2 ^ 52) * (2::real) powi (int n - 52) = 2 ^ n"
    by (simp add: power_int_diff)
  ultimately show ?thesis by simp
qed

lemma to_float_values [simp]:
  "to_float 1 = 1" "to_float 2 = 2" "to_float 4 = 4" "to_float 32 = 32" "to_float 1024 = 1024"
  using to_float_power2 [of 0] to_float_power2 [of 1] to_float_power2 [of 2]
        to_float_power2 [of 5] to_float_power2 [of 10]
  by simp_all

lemma float_max_less_power2: "1024 \<le> n \<Longrightarrow> float_max < 2 ^ n"
proof -
  assume "1024 \<le> n"
  then have "(2::real) ^ 1024 \<le> 2 ^ n" by (intro power_increasing) simp_all
  moreover have "float_max < 2 ^ 1024" by (simp add: float_max_def)
  ultimately show ?thesis by simp
qed

lemma float_pow_two:
  "float_pow 2 n = (if 1024 \<le> n then Inl OverflowError else Inr (2 ^ n))"
proof (cases "1024 \<le> n")
  case True
  then show ?thesis
    using float_max_less_power2 [of n] by (simp add: float_pow_def)
next
  case False
  then have "(2::real) ^ n \<le> 2 ^ 1023" by (intro power_increasing) simp_all
  moreover have "(2::real) ^ 1023 \<le> float_max" by (simp add: float_max_def)
  ultimately have "\<not> float_max < (2::real) ^ n" by simp
  with False show ?thesis by (simp add: float_pow_def)
qed

lemma default_delay:
  "reconnect_exponential_base cfg = 2 \<Longrightarrow> reconnect_base_delay cfg = 1 \<Longrightarrow>
   calculate_backoff_delay cfg n =
     (if 1024 \<le> n then Inl OverflowError else Inr (min (2 ^ n) (reconnect_max_delay cfg)))"
  by (simp add: calculate_backoff_delay_def float_pow_two float_mul_def)

section \<open>Properties of the back-off delay and of validation\<close>

text \<open>
  What the function computes: the rounded product of the base delay and the rounded
  power, capped by the maximal delay, unless the power is out of range.
\<close>

lemma backoff_delay_formula:
  "calculate_backoff_delay cfg a =
     (if float_max < \<bar>to_float (reconnect_exponential_base cfg ^ a)\<bar> then Inl OverflowError
      else Inr (min (to_float (reconnect_base_delay cfg
                                 * to_float (reconnect_exponential_base cfg ^ a)))
                    (reconnect_max_delay cfg)))"
  by (simp add: calculate_backoff_delay_def float_pow_def float_mul_def Let_def)

text \<open>
  Claim C3. With base delay 1, multiplier 2 and maximal delay 300 the delays of attempts
  0, 1, 5 and 10 are 1, 2, 32 and 300, the last one capped from 1024, as the claim says.
  It does not hold for every attempt count: at attempt 1024 the power is out of the
  range of floats and the function raises \<open>OverflowError\<close> where the formula gives 300;
  with the multiplier \<open>2 ^ 600\<close> this happens at attempt 2.
\<close>

theorem backoff_delay_overflow:
  "calculate_backoff_delay (default_config ''user'' ''secret'') 0 = Inr 1
   \<and> calculate_backoff_delay (default_config ''user'' ''secret'') 1 = Inr 2
   \<and> calculate_backoff_delay (default_config ''user'' ''secret'') 5 = Inr 32
   \<and> calculate_backoff_delay (default_config ''user'' ''secret'') 10 = Inr 300
   \<and> calculate_backoff_delay (default_config ''user'' ''secret'') 1024 = Inl OverflowError
   \<and> min (reconnect_base_delay (default_config ''user'' ''secret'')
            * reconnect_exponential_base (default_config ''user'' ''secret'') ^ 1024)
          (reconnect_max_delay (default_config ''user'' ''secret'')) = 300
   \<and> calculate_backoff_delay steep_config 2 = Inl OverflowError
   \<and> min (reconnect_base_delay steep_config * reconnect_exponential_base steep_config ^ 2)
          (reconnect_max_delay steep_config) = 300"
proof -
  have d: "reconnect_exponential_base (default_config ''user'' ''secret'') = 2"
    "reconnect_base_delay (default_config ''user'' ''secret'') = 1"
    "reconnect_max_delay (default_config ''user'' ''secret'') = 300"
    by (simp_all add: default_config_def)
  have s: "reconnect_exponential_base steep_config = 2 ^ 600"
    "reconnect_base_delay steep_config = 1" "reconnect_max_delay steep_config = 300"
    by (simp_all add: steep_config_def test_config_def default_config_def)
  have "float_pow (2 ^ 600) 2 = float_pow 2 1200"
    by (simp add: float_pow_def power_mult [symmetric] del: power_mult_numeral)
  then have steep: "calculate_backoff_delay steep_config 2 = Inl OverflowError"
    by (simp add: calculate_backoff_delay_def s float_pow_two)
  have m1: "min (1 * (2::real) ^ 1024) 300 = 300" by simp
  have m2: "min (1 * ((2::real) ^ 600) ^ 2) 300 = 300" by simp
  show ?thesis
    using steep m1 m2 by (simp add: default_delay d s)
qed

text \<open>
  Claim C4, as stated, fails: a configuration with multiplier 1/2 and maximal delay 1/4
  below the base delay 1 passes \<open>validate\<close>, and the delay is computed from it.
\<close>

theorem validate_accepts_bad_multiplier:
  "\<not> 1 < reconnect_exponential_base
            ((default_config ''user'' ''secret'')
               \<lparr> reconnect_exponential_base := 1/2, reconnect_max_delay := 1/4 \<rparr>)
   \<and> \<not> reconnect_base_delay
            ((default_config ''user'' ''secret'')
               \<lparr> reconnect_exponential_base := 1/2, reconnect_max_delay := 1/4 \<rparr>)
          \<le> reconnect_max_delay
            ((default_config ''user'' ''secret'')
               \<lparr> reconnect_exponential_base := 1/2, reconnect_max_delay := 1/4 \<rparr>)
   \<and> validate ((default_config ''user'' ''secret'')
               \<lparr> reconnect_exponential_base := 1/2, reconnect_max_delay := 1/4 \<rparr>) = Inr ()
   \<and> calculate_backoff_delay
        ((default_config ''user'' ''secret'')
           \<lparr> reconnect_exponential_base := 1/2, reconnect_max_delay := 1/4 \<rparr>) 0 = Inr (1/4)"
  by (simp add: default_config_def validate_def calculate_backoff_delay_def float_pow_def
        float_mul_def float_max_def)

text \<open>
  Claim C4, amended. A configuration whose base delay is not positive is rejected when
  \<open>validate\<close> is called; the multiplier and the maximal delay are not checked: the
  result of \<open>validate\<close> does not depend on them.
\<close>

theorem validate_checks_base_delay_only:
  "(reconnect_base_delay cfg \<le> 0 \<longrightarrow> isl (validate cfg))
   \<and> validate (cfg\<lparr> reconnect_exponential_base := m, reconnect_max_delay := d \<rparr>)
       = validate cfg"
  by (simp add: validate_def)

theorem validate_checks_base_delay_only_witness:
  "reconnect_base_delay ((default_config ''user'' ''secret'')\<lparr> reconnect_base_delay := 0 \<rparr>) \<le> 0
   \<and> isl (validate ((default_config ''user'' ''secret'')\<lparr> reconnect_base_delay := 0 \<rparr>))
   \<and> validate ((default_config ''user'' ''secret'')\<lparr> reconnect_base_delay := 0 \<rparr>)
       = Inl (ValueError ''reconnect_base_delay must be positive'')"
  using validate_checks_base_delay_only
          [of "(default_config ''user'' ''secret'')\<lparr> reconnect_base_delay := 0 \<rparr>"]
  by (simp add: default_config_def validate_def)

section \<open>Properties of the client\<close>

lemma locked_trace_append:
  "locked_trace held xs \<Longrightarrow> locked_trace False ys \<Longrightarrow> locked_trace held (xs @ ys)"
  by (induction held xs rule: locked_trace.induct) auto

lemma connect_locked:
  "\<exists>seg. trace (snd (connect aw c)) = trace c @ seg \<and> locked_trace False seg"
proof (cases aw)
  case Cancelled
  then show ?thesis
    by (simp add: connect_def set_state_def emit_def session_called_def Let_def)
next
  case (Resumed out)
  then show ?thesis
    by (cases out)
       (simp_all add: connect_def set_state_def emit_def session_called_def Let_def)
qed

lemma client_step_locked:
  "\<exists>seg. trace (client_step op c) = trace c @ seg \<and> locked_trace False seg"
proof (cases op)
  case (Connect aw)
  then show ?thesis using connect_locked [of aw c] by simp
next
  case (Disconnect out)
  then show ?thesis
    by (cases out) (simp_all add: disconnect_def set_state_def emit_def Let_def)
next
  case (Ping out)
  then show ?thesis
    by (cases out) (simp_all add: ping_def emit_def Let_def)
qed

lemma client_run_locked:
  "locked_trace False (trace c) \<Longrightarrow> locked_trace False (trace (client_run ops c))"
proof (induction ops arbitrary: c)
  case Nil
  then show ?case by simp
next
  case (Cons op ops)
  from client_step_locked [of op c] obtain seg
    where "trace (client_step op c) = trace c @ seg" "locked_trace False seg"
    by blast
  with Cons.prems have "locked_trace False (trace (client_step op c))"
    by (simp add: locked_trace_append)
  from Cons.IH [OF this] show ?case by simp
qed

text \<open>
  Claim C7, as stated, fails in two places. When the task is cancelled while \<open>connect\<close>
  waits for the session, \<open>connect\<close> returns nothing, raises \<open>CancelledError\<close> and leaves
  the state CONNECTING. When the import of the library or the constructor of the session
  raises, \<open>connect\<close> returns \<open>False\<close> in state DISCONNECTED without having called the
  session.
\<close>

theorem connect_cancelled_stays_connecting:
  "fst (connect Cancelled (new_client (default_config ''user'' ''secret'')))
     = Inl CancelledError
   \<and> state (snd (connect Cancelled (new_client (default_config ''user'' ''secret''))))
       = CONNECTING
   \<and> trace (snd (connect Cancelled (new_client (default_config ''user'' ''secret''))))
       = [LockAcquired, StateSet CONNECTING, SessionConnect Quotex, LockReleased]
   \<and> connect (Resumed (ConnectSetupRaises ''No module named quotexapi''))
         (new_client (default_config ''user'' ''secret''))
       = (Inr False,
          (new_client (default_config ''user'' ''secret''))
            \<lparr> trace := [LockAcquired, StateSet CONNECTING, StateSet DISCONNECTED,
                         LockReleased] \<rparr>)"
  by (simp add: connect_def new_client_def default_config_def set_state_def emit_def
        session_called_def Let_def)

text \<open>
  Claim C7, amended. \<open>connect\<close> on a connected client takes the lock, returns \<open>True\<close> and
  releases the lock; the state and the session are not touched. Otherwise, holding the
  lock, it assigns CONNECTING and builds and calls the session. It ends in CONNECTED
  returning \<open>True\<close> when the session accepts, and in DISCONNECTED returning \<open>False\<close> when
  the session refuses or raises, or when building the session raises, in which case the
  session is not called. When the task is cancelled during the call, \<open>CancelledError\<close> is
  raised and the state stays CONNECTING. Every call of the session and every assignment
  to the state happens with the lock held, and the lock is free afterwards; in any
  sequence of operations on a fresh client the lock is never taken while it is held.
\<close>

theorem connect_contract:
  "(state c = CONNECTED \<longrightarrow>
      connect aw c = (Inr True, c\<lparr> trace := trace c @ [LockAcquired, LockReleased] \<rparr>))
   \<and> (state c \<noteq> CONNECTED \<longrightarrow>
        fst (connect aw c)
          = (case aw of
               Cancelled \<Rightarrow> Inl CancelledError
             | Resumed out \<Rightarrow> Inr (dry_run (config c) \<or> out = ConnectOk))
        \<and> state (snd (connect aw c))
            = (if fst (connect aw c) = Inr True then CONNECTED
               else if fst (connect aw c) = Inr False then DISCONNECTED
               else CONNECTING)
        \<and> trace (snd (connect aw c))
            = trace c @ [LockAcquired, StateSet CONNECTING]
                @ (if dry_run (config c)
                     then (case aw of
                             Cancelled \<Rightarrow> []
                           | Resumed out \<Rightarrow> [SessionConnect DryRunAPI])
                   else (case aw of
                           Resumed (ConnectSetupRaises e) \<Rightarrow> []
                         | _ \<Rightarrow> [SessionConnect Quotex]))
                @ (case aw of
                     Cancelled \<Rightarrow> []
                   | Resumed out \<Rightarrow> [StateSet (state (snd (connect aw c)))])
                @ [LockReleased])
   \<and> locked_trace False (drop (length (trace c)) (trace (snd (connect aw c))))
   \<and> locked_trace False (trace (client_run ops (new_client cfg)))"
proof -
  have run: "locked_trace False (trace (client_run ops (new_client cfg)))"
    by (rule client_run_locked) (simp add: new_client_def)
  show ?thesis
  proof (cases aw)
    case Cancelled
    then show ?thesis using run
      by (simp add: connect_def set_state_def emit_def session_called_def Let_def)
  next
    case (Resumed out)
    then show ?thesis using run
      by (cases out)
         (simp_all add: connect_def set_state_def emit_def session_called_def Let_def)
  qed
qed

theorem connect_contract_witness:
  "connect (Resumed ConnectOk)
       ((new_client (default_config ''user'' ''secret''))\<lparr> state := CONNECTED \<rparr>)
     = (Inr True, (new_client (default_config ''user'' ''secret''))
                    \<lparr> state := CONNECTED, trace := [LockAcquired, LockReleased] \<rparr>)
   \<and> state (new_client (default_config ''user'' ''secret'')) \<noteq> CONNECTED
   \<and> fst (connect (Resumed (ConnectRaises ''boom''))
             (new_client (default_config ''user'' ''secret''))) = Inr False
   \<and> state (snd (connect (Resumed (ConnectRaises ''boom''))
                    (new_client (default_config ''user'' ''secret'')))) = DISCONNECTED
   \<and> trace (snd (connect (Resumed (ConnectRaises ''boom''))
                    (new_client (default_config ''user'' ''secret''))))
       = [LockAcquired, StateSet CONNECTING, SessionConnect Quotex, StateSet DISCONNECTED,
          LockReleased]
   \<and> fst (connect (Resumed ConnectOk) (new_client (default_config ''user'' ''secret'')))
       = Inr True
   \<and> state (snd (connect (Resumed ConnectOk) (new_client (default_config ''user'' ''secret''))))
       = CONNECTED
   \<and> fst (connect Cancelled (new_client (default_config ''user'' ''secret'')))
       = Inl CancelledError
   \<and> state (snd (connect Cancelled (new_client (default_config ''user'' ''secret''))))
       = CONNECTING"
  using connect_contract
          [of "(new_client (default_config ''user'' ''secret''))\<lparr> state := CONNECTED \<rparr>"
              "Resumed ConnectOk"]
        connect_contract
          [of "new_client (default_config ''user'' ''secret'')" "Resumed (ConnectRaises ''boom'')"]
        connect_contract
          [of "new_client (default_config ''user'' ''secret'')" "Resumed ConnectOk"]
        connect_contract
          [of "new_client (default_config ''user'' ''secret'')" Cancelled]
  by (simp add: new_client_def default_config_def)

text \<open>
  Claim C8. In every state other than CONNECTED the probe returns \<open>False\<close> and leaves
  the client as it is, so the session is not pinged; whatever the outcome, the probe
  leaves the connection state unchanged. This holds for \<open>client.ping\<close> and for the
  watchdog's \<open>_check_connection\<close>.
\<close>

theorem probe_frame:
  "(state c \<noteq> CONNECTED \<longrightarrow> ping out c = (False, c))
   \<and> (state (client w) \<noteq> CONNECTED \<longrightarrow> check_connection out w = (False, w))
   \<and> state (snd (ping out c)) = state c
   \<and> state (client (snd (check_connection out w))) = state (client w)"
  by (cases out)
     (simp_all add: ping_def check_connection_def is_connected_def emit_def Let_def
               split: prod.splits)

theorem probe_frame_witness:
  "state (new_client (default_config ''user'' ''secret'')) \<noteq> CONNECTED
   \<and> ping (PingBalance (Some 10)) (new_client (default_config ''user'' ''secret''))
       = (False, new_client (default_config ''user'' ''secret''))
   \<and> check_connection (PingBalance (Some 10))
        (new_watchdog (new_client (default_config ''user'' ''secret''))
           (default_config ''user'' ''secret'') None)
       = (False, new_watchdog (new_client (default_config ''user'' ''secret''))
                   (default_config ''user'' ''secret'') None)"
  using probe_frame
          [of "new_client (default_config ''user'' ''secret'')"
              "PingBalance (Some 10)"
              "new_watchdog (new_client (default_config ''user'' ''secret''))
                 (default_config ''user'' ''secret'') None"]
  by (simp add: new_client_def new_watchdog_def)

lemma connect_no_reconnecting:
  "state c \<noteq> RECONNECTING \<Longrightarrow> StateSet RECONNECTING \<notin> set (trace c) \<Longrightarrow>
   state (snd (connect aw c)) \<noteq> RECONNECTING
   \<and> StateSet RECONNECTING \<notin> set (trace (snd (connect aw c)))"
proof (cases aw)
  case Cancelled
  assume "state c \<noteq> RECONNECTING" "StateSet RECONNECTING \<notin> set (trace c)"
  then show ?thesis using Cancelled
    by (simp add: connect_def set_state_def emit_def session_called_def Let_def)
next
  case (Resumed out)
  assume "state c \<noteq> RECONNECTING" "StateSet RECONNECTING \<notin> set (trace c)"
  then show ?thesis using Resumed
    by (cases out)
       (simp_all add: connect_def set_state_def emit_def session_called_def Let_def)
qed

lemma client_step_no_reconnecting:
  "state c \<noteq> RECONNECTING \<Longrightarrow> StateSet RECONNECTING \<notin> set (trace c) \<Longrightarrow>
   state (client_step op c) \<noteq> RECONNECTING
   \<and> StateSet RECONNECTING \<notin> set (trace (client_step op c))"
proof (cases op)
  case (Connect aw)
  assume "state c \<noteq> RECONNECTING" "StateSet RECONNECTING \<notin> set (trace c)"
  then show ?thesis using Connect connect_no_reconnecting [of c aw] by simp
next
  case (Disconnect out)
  assume "state c \<noteq> RECONNECTING" "StateSet RECONNECTING \<notin> set (trace c)"
  then show ?thesis using Disconnect
    by (cases out) (simp_all add: disconnect_def set_state_def emit_def Let_def)
next
  case (Ping out)
  assume "state c \<noteq> RECONNECTING" "StateSet RECONNECTING \<notin> set (trace c)"
  then show ?thesis using Ping
    by (cases out) (simp_all add: ping_def emit_def Let_def)
qed

lemma client_run_no_reconnecting:
  "state c \<noteq> RECONNECTING \<Longrightarrow> StateSet RECONNECTING \<notin> set (trace c) \<Longrightarrow>
   state (client_run ops c) \<noteq> RECONNECTING
   \<and> StateSet RECONNECTING \<notin> set (trace (client_run ops c))"
proof (induction ops arbitrary: c)
  case Nil
  then show ?case by simp
next
  case (Cons op ops)
  from client_step_no_reconnecting [OF Cons.prems]
  show ?case using Cons.IH [of "client_step op c"] by simp
qed

text \<open>
  Claim C10. After any sequence of connect, disconnect and ping operations on a fresh
  client, with any behaviour of the session, the state is not RECONNECTING and no
  assignment to the state, intermediate ones included, ever wrote RECONNECTING.
\<close>

theorem reconnecting_unreachable:
  "state (client_run ops (new_client cfg)) \<noteq> RECONNECTING
   \<and> StateSet RECONNECTING \<notin> set (trace (client_run ops (new_client cfg)))"
  by (rule client_run_no_reconnecting) (simp_all add: new_client_def)

section \<open>Properties of the watchdog\<close>

lemma config_connect [simp]: "config (snd (connect aw c)) = config c"
proof (cases aw)
  case Cancelled
  then show ?thesis
    by (simp add: connect_def set_state_def emit_def session_called_def Let_def)
next
  case (Resumed out)
  then show ?thesis
    by (cases out)
       (simp_all add: connect_def set_state_def emit_def session_called_def Let_def)
qed

lemma config_disconnect [simp]: "config (disconnect out c) = config c"
  by (cases out) (simp_all add: disconnect_def set_state_def emit_def Let_def)

lemma config_ping [simp]: "config (snd (ping out c)) = config c"
  by (cases out) (simp_all add: ping_def emit_def Let_def)

lemma reconnections_append [simp]:
  "reconnections (xs @ ys) = reconnections xs + reconnections ys"
  by (simp add: reconnections_def)

lemma reconnections_Nil [simp]: "reconnections [] = 0"
  by (simp add: reconnections_def)

lemma reconnections_Cons [simp]:
  "reconnections (e # es) = (if e = CallConnect True then 1 else 0) + reconnections es"
  by (simp add: reconnections_def)

lemma log_event_fields [simp]:
  "wd_config (log_event e w) = wd_config w"
  "on_reconnect (log_event e w) = on_reconnect w"
  "client (log_event e w) = client w"
  "running (log_event e w) = running w"
  "total_reconnects (log_event e w) = total_reconnects w"
  "consecutive_failures (log_event e w) = consecutive_failures w"
  "wd_trace (log_event e w) = wd_trace w @ [e]"
  by (simp_all add: log_event_def)

lemma invoke_on_reconnect_fields [simp]:
  "wd_config (invoke_on_reconnect w) = wd_config w"
  "on_reconnect (invoke_on_reconnect w) = on_reconnect w"
  "client (invoke_on_reconnect w) = client w"
  "running (invoke_on_reconnect w) = running w"
  "total_reconnects (invoke_on_reconnect w) = total_reconnects w"
  "consecutive_failures (invoke_on_reconnect w) = consecutive_failures w"
  "reconnections (wd_trace (invoke_on_reconnect w)) = reconnections (wd_trace w)"
  by (simp_all add: invoke_on_reconnect_def split: option.splits)

lemma fst_connect:
  "fst (connect (Resumed out) c)
     = Inr (state c = CONNECTED \<or> dry_run (config c) \<or> out = ConnectOk)"
  by (cases out)
     (simp_all add: connect_def set_state_def emit_def session_called_def Let_def)

lemma state_connect:
  "state (snd (connect (Resumed out) c))
     = (if fst (connect (Resumed out) c) = Inr True then CONNECTED else DISCONNECTED)"
  by (cases out)
     (simp_all add: connect_def set_state_def emit_def session_called_def Let_def)

lemma fst_connect_cancelled:
  "fst (connect Cancelled c) = (if state c = CONNECTED then Inr True else Inl CancelledError)"
  by (simp add: connect_def set_state_def emit_def session_called_def Let_def)

lemma state_disconnect [simp]: "state (disconnect out c) = DISCONNECTED"
  by (cases out) (simp_all add: disconnect_def set_state_def emit_def Let_def)

lemma reconnect_attempt_stats:
  assumes "reconnect_attempt env delay w = (r, w')"
  shows "wd_config w' = wd_config w \<and> on_reconnect w' = on_reconnect w
     \<and> config (client w') = config (client w)
     \<and> total_reconnects w' + reconnections (wd_trace w)
         = total_reconnects w + reconnections (wd_trace w')
     \<and> consecutive_failures w'
         = (if reconnections (wd_trace w') = reconnections (wd_trace w)
            then consecutive_failures w else 0)"
  using assms
  by (auto simp add: reconnect_attempt_def Let_def split: if_splits sum.splits)

lemma reconnect_attempt_failed:
  assumes "reconnect_attempt env delay w = (AttemptFailed, w')"
  shows "reconnections (wd_trace w') = reconnections (wd_trace w) \<and> running w' = running w"
  using assms
  by (auto simp add: reconnect_attempt_def Let_def split: if_splits sum.splits)

lemma reconnect_loop_stats:
  "reconnect_loop env n w = (r, w') \<Longrightarrow>
     wd_config w' = wd_config w \<and> on_reconnect w' = on_reconnect w
     \<and> config (client w') = config (client w)
     \<and> total_reconnects w' + reconnections (wd_trace w)
         = total_reconnects w + reconnections (wd_trace w')
     \<and> consecutive_failures w'
         = (if reconnections (wd_trace w') = reconnections (wd_trace w)
            then consecutive_failures w else 0)"
proof (induction env n w arbitrary: r w' rule: reconnect_loop.induct)
  case (1 env n w)
  show ?case
  proof (cases "running w \<and> int n < reconnect_max_retries (wd_config w)")
    case False
    with "1.prems" show ?thesis
      by (subst (asm) reconnect_loop.simps) (auto split: if_splits)
  next
    case guard: True
    show ?thesis
    proof (cases "calculate_backoff_delay (wd_config w) n")
      case (Inl e)
      with guard "1.prems" show ?thesis
        by (subst (asm) reconnect_loop.simps) auto
    next
      case (Inr delay)
      obtain x y where att: "reconnect_attempt (env n) delay w = (x, y)"
        by (cases "reconnect_attempt (env n) delay w")
      note st = reconnect_attempt_stats [OF att]
      show ?thesis
      proof (cases x)
        case Reconnected
        with guard Inr att "1.prems" have "w' = y"
          by (subst (asm) reconnect_loop.simps) simp
        with st show ?thesis by simp
      next
        case (Interrupted e)
        with guard Inr att "1.prems" have "w' = y"
          by (subst (asm) reconnect_loop.simps) simp
        with st show ?thesis by simp
      next
        case AttemptFailed
        with guard Inr att "1.prems" have eq: "reconnect_loop env (Suc n) y = (r, w')"
          by (subst (asm) reconnect_loop.simps) simp
        from "1.IH" [OF guard Inr att [symmetric] AttemptFailed eq] st
             reconnect_attempt_failed [OF att [unfolded AttemptFailed]]
        show ?thesis by simp
      qed
    qed
  qed
qed

lemma check_connection_fields [simp]:
  "wd_config (snd (check_connection out w)) = wd_config w"
  "on_reconnect (snd (check_connection out w)) = on_reconnect w"
  "running (snd (check_connection out w)) = running w"
  "total_reconnects (snd (check_connection out w)) = total_reconnects w"
  "consecutive_failures (snd (check_connection out w)) = consecutive_failures w"
  "wd_trace (snd (check_connection out w)) = wd_trace w"
  "config (client (snd (check_connection out w))) = config (client w)"
  by (simp_all add: check_connection_def split: prod.splits)
     (metis config_ping snd_conv)

lemma fst_check_connection_log_event [simp]:
  "fst (check_connection out (log_event e w)) = fst (check_connection out w)"
  by (simp add: check_connection_def log_event_def split: prod.splits)

lemma fst_ping_fails:
  "\<not> dry_run (config c) \<Longrightarrow> \<forall>b. out \<noteq> PingBalance (Some b) \<Longrightarrow> \<not> fst (ping out c)"
  by (cases out) (auto simp: ping_def Let_def)

lemma fst_check_connection_fails:
  "\<not> dry_run (config (client w)) \<Longrightarrow> \<forall>b. out \<noteq> PingBalance (Some b) \<Longrightarrow>
   \<not> fst (check_connection out w)"
  using fst_ping_fails [of "client w" out]
  by (simp add: check_connection_def case_prod_beta)

lemma monitor_tick_failures:
  "\<not> tick_stop env \<Longrightarrow>
   consecutive_failures (monitor_tick env w) =
     (if fst (check_connection (ping_out env) w) then 0
      else if reconnections (wd_trace (monitor_tick env w)) = reconnections (wd_trace w)
        then consecutive_failures w + 1
      else 0)"
proof (cases "fst (check_connection (ping_out env) w)")
  case True
  assume "\<not> tick_stop env"
  with True show ?thesis by (simp add: monitor_tick_def Let_def)
next
  case False
  assume ns: "\<not> tick_stop env"
  define w2 where "w2 = (snd (check_connection (ping_out env)
                               (log_event (Sleep (ping_interval (wd_config w))) w)))
                          \<lparr> consecutive_failures := consecutive_failures w + 1 \<rparr>"
  obtain r w3 where loop: "reconnect_loop (attempts env) 0 w2 = (r, w3)"
    by (cases "reconnect_loop (attempts env) 0 w2")
  have tr: "reconnections (wd_trace w2) = reconnections (wd_trace w)"
    and cf: "consecutive_failures w2 = consecutive_failures w + 1"
    by (simp_all add: w2_def)
  have eq: "monitor_tick env w
              = (case r of None \<Rightarrow> w3
                 | Some e \<Rightarrow> if is_exception e then log_event (Sleep 1) w3 else w3)"
    using False ns loop
    by (simp add: monitor_tick_def Let_def handle_disconnect_def w2_def split: option.splits)
  from reconnect_loop_stats [OF loop] tr cf False eq show ?thesis
    by (simp split: option.splits)
qed

lemma force_reconnect_failures:
  "consecutive_failures (snd (force_reconnect cl co w))
     = (if fst (force_reconnect cl co w) then 0 else consecutive_failures w)"
  by (simp add: force_reconnect_def Let_def)

lemma reconnect_attempt_refused:
  assumes "\<not> dry_run (config (client w))" "\<not> stop_requested env"
    "connect_out env \<noteq> ConnectOk"
  shows "reconnect_attempt env delay w
     = (AttemptFailed,
        log_event (CallConnect False)
          ((log_event (Sleep 1) (log_event CallDisconnect (log_event (Sleep delay) w)))
             \<lparr> client := snd (connect (Resumed (connect_out env))
                                (disconnect (close_out env) (client w))) \<rparr>))"
  using assms
  by (simp add: reconnect_attempt_def stopped_at_def Let_def fst_connect log_event_def)

lemma reconnect_loop_all_fail:
  "\<not> dry_run (config (client w)) \<Longrightarrow>
   \<forall>i. \<not> stop_requested (env i) \<and> connect_out (env i) \<noteq> ConnectOk \<Longrightarrow>
   reconnect_loop env n w = (r, w') \<Longrightarrow>
   reconnections (wd_trace w') = reconnections (wd_trace w) \<and> running w' = running w"
proof (induction env n w arbitrary: r w' rule: reconnect_loop.induct)
  case (1 env n w)
  have nstop: "\<not> stop_requested (env n)" and nok: "connect_out (env n) \<noteq> ConnectOk"
    using "1.prems"(2) by simp_all
  show ?case
  proof (cases "running w \<and> int n < reconnect_max_retries (wd_config w)")
    case False
    with "1.prems"(3) show ?thesis
      by (subst (asm) reconnect_loop.simps) (auto split: if_splits)
  next
    case guard: True
    show ?thesis
    proof (cases "calculate_backoff_delay (wd_config w) n")
      case (Inl e)
      with guard "1.prems"(3) show ?thesis
        by (subst (asm) reconnect_loop.simps) auto
    next
      case (Inr delay)
      obtain y where att: "reconnect_attempt (env n) delay w = (AttemptFailed, y)"
        using reconnect_attempt_refused [OF "1.prems"(1) nstop nok] by simp
      from guard Inr att "1.prems"(3) have eq: "reconnect_loop env (Suc n) y = (r, w')"
        by (subst (asm) reconnect_loop.simps) simp
      have nd: "\<not> dry_run (config (client y))"
        using reconnect_attempt_stats [OF att] "1.prems"(1) by simp
      from "1.IH" [OF guard Inr att [symmetric] refl nd "1.prems"(2) eq]
           reconnect_attempt_failed [OF att]
      show ?thesis by simp
    qed
  qed
qed

lemma monitor_tick_all_fail:
  assumes "\<not> dry_run (config (client w))" and "\<not> tick_stop e"
    and "\<forall>b. ping_out e \<noteq> PingBalance (Some b)"
    and "\<forall>i. \<not> stop_requested (attempts e i) \<and> connect_out (attempts e i) \<noteq> ConnectOk"
  shows "consecutive_failures (monitor_tick e w) = consecutive_failures w + 1
     \<and> running (monitor_tick e w) = running w
     \<and> \<not> dry_run (config (client (monitor_tick e w)))
     \<and> total_reconnects (monitor_tick e w) = total_reconnects w"
proof -
  define w2 where "w2 = (snd (check_connection (ping_out e)
                               (log_event (Sleep (ping_interval (wd_config w))) w)))
                          \<lparr> consecutive_failures := consecutive_failures w + 1 \<rparr>"
  obtain r w3 where loop: "reconnect_loop (attempts e) 0 w2 = (r, w3)"
    by (cases "reconnect_loop (attempts e) 0 w2")
  have pf: "\<not> fst (check_connection (ping_out e) w)"
    using assms(1,3) by (rule fst_check_connection_fails)
  have eq: "monitor_tick e w
              = (case r of None \<Rightarrow> w3
                 | Some x \<Rightarrow> if is_exception x then log_event (Sleep 1) w3 else w3)"
    using pf assms(2) loop
    by (simp add: monitor_tick_def Let_def handle_disconnect_def w2_def split: option.splits)
  have nd: "\<not> dry_run (config (client w2))"
    using assms(1) by (simp add: w2_def)
  from reconnect_loop_all_fail [OF nd assms(4) loop]
       reconnect_loop_stats [OF loop] assms(1) eq
  show ?thesis by (simp add: w2_def split: option.splits)
qed

lemma monitor_loop_all_fail:
  "running w \<Longrightarrow> \<not> dry_run (config (client w)) \<Longrightarrow>
   \<forall>e \<in> set envs. \<not> tick_stop e \<and> (\<forall>b. ping_out e \<noteq> PingBalance (Some b))
      \<and> (\<forall>i. \<not> stop_requested (attempts e i) \<and> connect_out (attempts e i) \<noteq> ConnectOk) \<Longrightarrow>
   consecutive_failures (monitor_loop envs w) = consecutive_failures w + length envs"
proof (induction envs arbitrary: w)
  case Nil
  then show ?case by simp
next
  case (Cons e envs)
  from Cons.prems have t: "consecutive_failures (monitor_tick e w) = consecutive_failures w + 1
     \<and> running (monitor_tick e w) = running w
     \<and> \<not> dry_run (config (client (monitor_tick e w)))
     \<and> total_reconnects (monitor_tick e w) = total_reconnects w"
    by (intro monitor_tick_all_fail) simp_all
  with Cons.prems Cons.IH [of "monitor_tick e w"] show ?case by simp
qed

lemma test_watchdog_fields:
  "running test_watchdog" "\<not> dry_run (config (client test_watchdog))"
  "consecutive_failures test_watchdog = 0" "total_reconnects test_watchdog = 0"
  "wd_trace test_watchdog = []" "state (client test_watchdog) = CONNECTED"
  "wd_config test_watchdog = test_config" "reconnect_max_retries test_config = 3"
  "reconnect_exponential_base test_config = 2" "reconnect_base_delay test_config = 1"
  "reconnect_max_delay test_config = 300"
  by (simp_all add: test_watchdog_def start_def new_watchdog_def test_config_def
        default_config_def new_client_def connect_def set_state_def emit_def
        session_called_def Let_def)

lemma steep_watchdog_fields:
  "running steep_watchdog" "\<not> dry_run (config (client steep_watchdog))"
  "consecutive_failures steep_watchdog = 0" "total_reconnects steep_watchdog = 0"
  "wd_trace steep_watchdog = []" "state (client steep_watchdog) = CONNECTED"
  "wd_config steep_watchdog = steep_config" "reconnect_max_retries steep_config = 3"
  "reconnect_exponential_base steep_config = 2 ^ 600" "reconnect_base_delay steep_config = 1"
  "reconnect_max_delay steep_config = 300"
  by (simp_all add: steep_watchdog_def steep_config_def start_def new_watchdog_def
        test_config_def default_config_def new_client_def connect_def set_state_def emit_def
        session_called_def Let_def)

text \<open>
  Claim C5, as stated, fails in its last part: after two consecutive failed probes the
  counter is 1, not 2, when the reconnection that followed the first one succeeded.
\<close>

theorem two_failed_probes_one_failure:
  "\<not> fst (check_connection (ping_out recovering_tick) test_watchdog)
   \<and> \<not> fst (check_connection (ping_out failing_tick) (monitor_tick recovering_tick test_watchdog))
   \<and> consecutive_failures (monitor_tick recovering_tick test_watchdog) = 0
   \<and> consecutive_failures (monitor_loop [recovering_tick, failing_tick] test_watchdog) = 1"
  by (simp add: test_watchdog_def start_def new_watchdog_def test_config_def
        default_config_def new_client_def recovering_tick_def failing_tick_def
        accepting_def refusing_def monitor_tick_def handle_disconnect_def
        reconnect_loop.simps reconnect_attempt_def stopped_at_def check_connection_def
        ping_def is_connected_def connect_def disconnect_def set_state_def emit_def
        session_called_def log_event_def invoke_on_reconnect_def Let_def default_delay)

text \<open>
  Claim C5, amended. A monitor tick that is not interrupted sets the counter to 0 when
  the probe succeeds or when a reconnection of that tick succeeds, and otherwise adds
  one; an interrupted tick, \<open>start\<close> and \<open>stop\<close> leave it as it is; \<open>force_reconnect\<close>
  sets it to 0 when it succeeds and leaves it as it is otherwise. After \<open>N\<close> consecutive
  failed probes, none of them followed by a successful reconnection, the counter has
  grown by \<open>N\<close>.
\<close>

theorem consecutive_failures_reset:
  "(\<not> tick_stop env \<longrightarrow>
      consecutive_failures (monitor_tick env w) =
        (if fst (check_connection (ping_out env) w) then 0
         else if reconnections (wd_trace (monitor_tick env w)) = reconnections (wd_trace w)
           then consecutive_failures w + 1
         else 0))
   \<and> (tick_stop env \<longrightarrow> consecutive_failures (monitor_tick env w) = consecutive_failures w)
   \<and> consecutive_failures (snd (force_reconnect cl co w))
       = (if fst (force_reconnect cl co w) then 0 else consecutive_failures w)
   \<and> consecutive_failures (start w) = consecutive_failures w
   \<and> consecutive_failures (stop w) = consecutive_failures w
   \<and> (running w \<and> \<not> dry_run (config (client w))
        \<and> (\<forall>e \<in> set envs. \<not> tick_stop e \<and> (\<forall>b. ping_out e \<noteq> PingBalance (Some b))
              \<and> (\<forall>i. \<not> stop_requested (attempts e i)
                       \<and> connect_out (attempts e i) \<noteq> ConnectOk))
      \<longrightarrow> consecutive_failures (monitor_loop envs w) = consecutive_failures w + length envs)"
proof (intro conjI impI)
  assume "\<not> tick_stop env"
  then show "consecutive_failures (monitor_tick env w) =
        (if fst (check_connection (ping_out env) w) then 0
         else if reconnections (wd_trace (monitor_tick env w)) = reconnections (wd_trace w)
           then consecutive_failures w + 1
         else 0)"
    by (rule monitor_tick_failures)
next
  assume "tick_stop env"
  then show "consecutive_failures (monitor_tick env w) = consecutive_failures w"
    by (simp add: monitor_tick_def Let_def)
next
  show "consecutive_failures (snd (force_reconnect cl co w))
       = (if fst (force_reconnect cl co w) then 0 else consecutive_failures w)"
    by (rule force_reconnect_failures)
next
  show "consecutive_failures (start w) = consecutive_failures w"
    by (simp add: start_def)
next
  show "consecutive_failures (stop w) = consecutive_failures w"
    by (simp add: stop_def)
next
  assume "running w \<and> \<not> dry_run (config (client w))
        \<and> (\<forall>e \<in> set envs. \<not> tick_stop e \<and> (\<forall>b. ping_out e \<noteq> PingBalance (Some b))
              \<and> (\<forall>i. \<not> stop_requested (attempts e i)
                       \<and> connect_out (attempts e i) \<noteq> ConnectOk))"
  then show "consecutive_failures (monitor_loop envs w) = consecutive_failures w + length envs"
    using monitor_loop_all_fail [of w envs] by blast
qed

theorem consecutive_failures_reset_witness:
  "\<not> tick_stop failing_tick
   \<and> \<not> fst (check_connection (ping_out failing_tick) test_watchdog)
   \<and> consecutive_failures (monitor_tick failing_tick test_watchdog) = 1
   \<and> tick_stop stopped_tick
   \<and> consecutive_failures (monitor_tick stopped_tick test_watchdog) = 0
   \<and> consecutive_failures (monitor_loop [failing_tick, failing_tick] test_watchdog) = 2"
  using consecutive_failures_reset [of failing_tick test_watchdog CloseOk ConnectOk "[failing_tick]"]
        consecutive_failures_reset [of stopped_tick test_watchdog CloseOk ConnectOk
                                       "[failing_tick, failing_tick]"]
  by (simp add: test_watchdog_fields failing_tick_def stopped_tick_def refusing_def
        fst_check_connection_fails)

text \<open>
  Claim C6. With three retries, a session that refuses every connection and back-off
  delays that can be computed, the reconnection sequence is: back-off sleep of attempt
  0, disconnect, settle sleep, failed connect; the same for attempts 1 and 2; then the
  exhaustion report. No exception leaves the sequence, the number of reconnections and
  the failure counter are as before and the watchdog is still running.
\<close>

theorem reconnect_exhaustion:
  assumes "running w" and "reconnect_max_retries (wd_config w) = 3"
    and "\<not> dry_run (config (client w))"
    and "\<forall>i. \<not> stop_requested (env i) \<and> connect_out (env i) \<noteq> ConnectOk"
    and "calculate_backoff_delay (wd_config w) 0 = Inr d0"
    and "calculate_backoff_delay (wd_config w) 1 = Inr d1"
    and "calculate_backoff_delay (wd_config w) 2 = Inr d2"
  shows "fst (handle_disconnect env w) = None
     \<and> wd_trace (snd (handle_disconnect env w)) = wd_trace w @
           [Sleep d0, CallDisconnect, Sleep 1, CallConnect False,
            Sleep d1, CallDisconnect, Sleep 1, CallConnect False,
            Sleep d2, CallDisconnect, Sleep 1, CallConnect False,
            ReportExhausted]
     \<and> total_reconnects (snd (handle_disconnect env w)) = total_reconnects w
     \<and> consecutive_failures (snd (handle_disconnect env w)) = consecutive_failures w
     \<and> running (snd (handle_disconnect env w))
     \<and> state (client (snd (handle_disconnect env w))) = DISCONNECTED"
  using assms
  by (simp add: handle_disconnect_def reconnect_loop.simps reconnect_attempt_refused
                Let_def fst_connect state_connect numeral_2_eq_2)

theorem reconnect_exhaustion_witness:
  "running test_watchdog \<and> reconnect_max_retries (wd_config test_watchdog) = 3
   \<and> \<not> dry_run (config (client test_watchdog))
   \<and> calculate_backoff_delay (wd_config test_watchdog) 0 = Inr 1
   \<and> calculate_backoff_delay (wd_config test_watchdog) 1 = Inr 2
   \<and> calculate_backoff_delay (wd_config test_watchdog) 2 = Inr 4
   \<and> fst (handle_disconnect refusing test_watchdog) = None
   \<and> wd_trace (snd (handle_disconnect refusing test_watchdog)) =
       [Sleep 1, CallDisconnect, Sleep 1, CallConnect False,
        Sleep 2, CallDisconnect, Sleep 1, CallConnect False,
        Sleep 4, CallDisconnect, Sleep 1, CallConnect False,
        ReportExhausted]
   \<and> total_reconnects (snd (handle_disconnect refusing test_watchdog)) = 0
   \<and> running (snd (handle_disconnect refusing test_watchdog))"
  using reconnect_exhaustion [of test_watchdog refusing 1 2 4]
  by (simp add: test_watchdog_fields refusing_def default_delay)

text \<open>
  With a multiplier that overflows at the third attempt the sequence is left by
  \<open>OverflowError\<close> after two attempts, without the exhaustion report, and the monitor
  loop goes on after its pause of one second.
\<close>

lemma overflow_leaves_reconnection:
  "fst (handle_disconnect refusing steep_watchdog) = Some OverflowError
   \<and> wd_trace (snd (handle_disconnect refusing steep_watchdog)) =
       [Sleep 1, CallDisconnect, Sleep 1, CallConnect False,
        Sleep 300, CallDisconnect, Sleep 1, CallConnect False]
   \<and> running (monitor_tick failing_tick steep_watchdog)
   \<and> consecutive_failures (monitor_tick failing_tick steep_watchdog) = 1"
proof -
  have d0: "calculate_backoff_delay steep_config 0 = Inr 1"
    by (simp add: calculate_backoff_delay_def float_pow_def float_mul_def float_max_def
          steep_watchdog_fields)
  have "float_pow (2 ^ 600) 1 = Inr (2 ^ 600)"
    using float_pow_two [of 600] by (simp add: float_pow_def)
  then have d1: "calculate_backoff_delay steep_config 1 = Inr 300"
    using to_float_power2 [of 600]
    by (simp add: calculate_backoff_delay_def float_mul_def steep_watchdog_fields)
  have "float_pow (2 ^ 600) 2 = float_pow 2 1200"
    by (simp add: float_pow_def power_mult [symmetric] del: power_mult_numeral)
  then have d2: "calculate_backoff_delay steep_config 2 = Inl OverflowError"
    by (simp add: calculate_backoff_delay_def steep_watchdog_fields float_pow_two)
  have "handle_disconnect refusing steep_watchdog
     = (Some OverflowError,
        steep_watchdog
          \<lparr> client := snd (connect (Resumed (ConnectRefused ''refused''))
                       (disconnect CloseOk
                          (snd (connect (Resumed (ConnectRefused ''refused''))
                             (disconnect CloseOk (client steep_watchdog)))))),
            wd_trace := wd_trace steep_watchdog @
              [Sleep 1, CallDisconnect, Sleep 1, CallConnect False,
               Sleep 300, CallDisconnect, Sleep 1, CallConnect False] \<rparr>)"
    using d0 d1 d2
    by (simp add: handle_disconnect_def reconnect_loop.simps reconnect_attempt_refused
          refusing_def steep_watchdog_fields log_event_def numeral_2_eq_2)
  moreover have "consecutive_failures (monitor_tick failing_tick steep_watchdog)
       = consecutive_failures steep_watchdog + 1
     \<and> running (monitor_tick failing_tick steep_watchdog) = running steep_watchdog
     \<and> \<not> dry_run (config (client (monitor_tick failing_tick steep_watchdog)))
     \<and> total_reconnects (monitor_tick failing_tick steep_watchdog)
         = total_reconnects steep_watchdog"
    by (rule monitor_tick_all_fail)
       (simp_all add: steep_watchdog_fields failing_tick_def refusing_def)
  ultimately show ?thesis
    by (simp add: steep_watchdog_fields)
qed

text \<open>
  When \<open>stop\<close> arrives while the first connect of a sequence waits for the session, the
  sequence is left by \<open>CancelledError\<close>, the client stays in CONNECTING and the watchdog
  no longer runs.
\<close>

lemma stop_during_connect:
  "fst (handle_disconnect stopping test_watchdog) = Some CancelledError
   \<and> wd_trace (snd (handle_disconnect stopping test_watchdog))
       = [Sleep 1, CallDisconnect, Sleep 1]
   \<and> state (client (snd (handle_disconnect stopping test_watchdog))) = CONNECTING
   \<and> \<not> running (snd (handle_disconnect stopping test_watchdog))
   \<and> \<not> running (monitor_tick
                   \<lparr> tick_stop = False, ping_out = PingTimeout, attempts = stopping \<rparr>
                   test_watchdog)"
  by (simp add: test_watchdog_def start_def new_watchdog_def test_config_def
        default_config_def new_client_def stopping_def monitor_tick_def
        handle_disconnect_def reconnect_loop.simps reconnect_attempt_def stopped_at_def
        check_connection_def ping_def is_connected_def connect_def disconnect_def
        set_state_def emit_def session_called_def log_event_def is_exception_def Let_def
        default_delay)

section \<open>Properties of the request queue\<close>

lemma busy_requests_append_idle:
  "busy_requests (ws @ replicate n Idle) = busy_requests ws"
proof (induction ws rule: busy_requests.induct)
  case 1
  show ?case by (induction n) simp_all
qed simp_all

lemma busy_requests_take:
  "i < length ws \<Longrightarrow> \<not> is_busy (ws ! i) \<Longrightarrow>
     mset (busy_requests (ws[i := Busy r])) = add_mset r (mset (busy_requests ws))"
proof (induction ws arbitrary: i)
  case Nil
  then show ?case by simp
next
  case (Cons w ws)
  then show ?case by (cases i; cases w) simp_all
qed

lemma busy_requests_finish:
  "i < length ws \<Longrightarrow> ws ! i = Busy r \<Longrightarrow> \<not> is_busy w' \<Longrightarrow>
     add_mset r (mset (busy_requests (ws[i := w']))) = mset (busy_requests ws)"
proof (induction ws arbitrary: i)
  case Nil
  then show ?case by simp
next
  case (Cons w ws)
  then show ?case by (cases i; cases w; cases w') simp_all
qed

lemma busy_requests_same:
  "i < length ws \<Longrightarrow> \<not> is_busy (ws ! i) \<Longrightarrow> \<not> is_busy w' \<Longrightarrow>
     busy_requests (ws[i := w']) = busy_requests ws"
proof (induction ws arbitrary: i)
  case Nil
  then show ?case by simp
next
  case (Cons w ws)
  then show ?case by (cases i; cases w; cases w') simp_all
qed

lemma worker_load_update:
  "i < length ws \<Longrightarrow>
     sum_list (map worker_load (ws[i := w'])) + worker_load (ws ! i)
       = sum_list (map worker_load ws) + worker_load w'"
proof (induction ws arbitrary: i)
  case Nil
  then show ?case by simp
next
  case (Cons w ws)
  show ?case
  proof (cases i)
    case 0
    then show ?thesis by simp
  next
    case (Suc j)
    with Cons.prems have "j < length ws" by simp
    from Cons.IH [OF this] Suc show ?thesis by simp
  qed
qed

lemma resolve_future_fields [simp]:
  "queue (resolve_future r response s) = queue s"
  "workers (resolve_future r response s) = workers s"
  "q_running (resolve_future r response s) = q_running s"
  "q_config (resolve_future r response s) = q_config s"
  "processed_count (resolve_future r response s) = processed_count s"
  "failed_count (resolve_future r response s) = failed_count s"
  "responses (resolve_future r response s) = responses s"
  "callback_calls (resolve_future r response s) = callback_calls s"
  "synthetic (resolve_future r response s) = synthetic s"
  by (simp_all add: resolve_future_def)

lemma response_id_process_request [simp]:
  "response_id (process_request out r) = request_id r"
  by (simp add: process_request_def failed_response_def split: option.splits op_outcome.splits)


lemma success_process_request_callback [simp]:
  "success (process_request out (r\<lparr> callback := cb \<rparr>)) = success (process_request out r)"
  by (simp add: process_request_def failed_response_def split: option.splits op_outcome.splits)


lemma worker_finish_busy:
  assumes "i < length (workers s)" "workers s ! i = Busy r"
  shows "processed_count (worker_finish i out s) =
           processed_count s + (if success (process_request out r) then 1 else 0)"
    and "failed_count (worker_finish i out s) =
           failed_count s + (if success (process_request out r) then 0 else 1)"
    and "workers (worker_finish i out s) =
           (workers s)[i := (case callback r of
                               Some (CoroutineCallback result) \<Rightarrow>
                                 InCallback r (process_request out r)
                             | _ \<Rightarrow> Idle)]"
    and "queue (worker_finish i out s) = queue s"
    and "q_running (worker_finish i out s) = q_running s"
    and "responses (worker_finish i out s) = responses s @ [process_request out r]"
    and "synthetic (worker_finish i out s) = synthetic s"
    and "callback_calls (worker_finish i out s) =
           (case callback r of None \<Rightarrow> callback_calls s
            | Some cb \<Rightarrow> callback_calls s @ [process_request out r])"
    and "futures (worker_finish i out s) =
           (case callback r of
              Some (CoroutineCallback result) \<Rightarrow> futures s
            | _ \<Rightarrow> futures (resolve_future r (process_request out r) s))"
  using assms
  by (auto simp add: worker_finish_def resolve_future_def Let_def
           split: option.splits callback.splits)

lemma worker_finish_other:
  "\<not> (i < length (workers s) \<and> is_busy (workers s ! i)) \<Longrightarrow> worker_finish i out s = s"
  by (cases "workers s ! i") (auto simp: worker_finish_def)

lemma callback_done_other:
  "\<not> (i < length (workers s) \<and> in_callback (workers s ! i)) \<Longrightarrow> callback_done i s = s"
  by (cases "workers s ! i") (auto simp: callback_done_def)

lemma callback_done_in_callback:
  assumes "i < length (workers s)" "workers s ! i = InCallback r response"
  shows "callback_done i s = (resolve_future r response s)\<lparr> workers := (workers s)[i := Idle] \<rparr>"
  using assms by (simp add: callback_done_def)

lemma accepted_requests_Cons:
  "accepted_requests (e # es) s = accepted_requests [e] s @ accepted_requests es (queue_step e s)"
  by (cases e) simp_all

lemma dropped_requests_Cons:
  "dropped_requests (e # es) s = dropped_requests [e] s @ dropped_requests es (queue_step e s)"
  by (cases e) simp_all

lemma step_accounting:
  "outstanding s + answered s + mset (map request_id (accepted_requests [e] s))
     = outstanding (queue_step e s) + answered (queue_step e s)
         + mset (map request_id (dropped_requests [e] s))"
proof (cases e)
  case Start
  then show ?thesis
    by (simp add: outstanding_def answered_def queue_start_def busy_requests_append_idle)
next
  case Stop
  then show ?thesis
    by (simp add: outstanding_def answered_def queue_stop_def)
next
  case (Submit r)
  then show ?thesis
    by (simp add: outstanding_def answered_def submit_put_def enqueue_def)
next
  case (WaitEnds r)
  then show ?thesis
    by (simp add: outstanding_def answered_def submit_wait_def
             split: option.splits future_state.splits)
next
  case (Take i)
  show ?thesis
  proof (cases "q_running s \<and> i < length (workers s) \<and> workers s ! i = Idle")
    case True
    then show ?thesis using Take
      by (cases "queue s")
         (simp_all add: outstanding_def answered_def worker_take_def busy_requests_take)
  next
    case False
    then show ?thesis using Take by (auto simp add: worker_take_def)
  qed
next
  case (Finish i out)
  show ?thesis
  proof (cases "i < length (workers s) \<and> is_busy (workers s ! i)")
    case True
    then obtain r where len: "i < length (workers s)" and busy: "workers s ! i = Busy r"
      by (cases "workers s ! i") auto
    define w' where "w' = (case callback r of
                             Some (CoroutineCallback result) \<Rightarrow>
                               InCallback r (process_request out r)
                           | _ \<Rightarrow> Idle)"
    have nb: "\<not> is_busy w'"
      by (simp add: w'_def split: option.splits callback.splits)
    have "mset (map request_id (busy_requests (workers s)))
            = add_mset (request_id r)
                (mset (map request_id (busy_requests ((workers s)[i := w']))))"
      using busy_requests_finish [OF len busy nb] by (metis image_mset_add_mset mset_map)
    then show ?thesis using Finish
      by (simp add: outstanding_def answered_def worker_finish_busy [OF len busy] w'_def)
  next
    case False
    then show ?thesis using Finish by (simp add: worker_finish_other)
  qed
next
  case (CallbackDone i)
  show ?thesis
  proof (cases "i < length (workers s) \<and> in_callback (workers s ! i)")
    case True
    then obtain r response
      where len: "i < length (workers s)" and cb: "workers s ! i = InCallback r response"
      by (cases "workers s ! i") auto
    have "busy_requests ((workers s)[i := Idle]) = busy_requests (workers s)"
      using len cb by (intro busy_requests_same) simp_all
    then show ?thesis using CallbackDone
      by (simp add: outstanding_def answered_def callback_done_in_callback [OF len cb])
  next
    case False
    then show ?thesis using CallbackDone by (simp add: callback_done_other)
  qed
qed

lemma run_accounting:
  "outstanding s + answered s + mset (map request_id (accepted_requests evs s))
     = outstanding (queue_run evs s) + answered (queue_run evs s)
         + mset (map request_id (dropped_requests evs s))"
proof (induction evs arbitrary: s)
  case Nil
  show ?case by simp
next
  case (Cons e es)
  have "outstanding s + answered s + mset (map request_id (accepted_requests (e # es) s))
          = (outstanding s + answered s + mset (map request_id (accepted_requests [e] s)))
              + mset (map request_id (accepted_requests es (queue_step e s)))"
    by (subst accepted_requests_Cons) simp
  also have "\<dots> = (outstanding (queue_step e s) + answered (queue_step e s)
                     + mset (map request_id (accepted_requests es (queue_step e s))))
                   + mset (map request_id (dropped_requests [e] s))"
    unfolding step_accounting by (simp add: ac_simps)
  also have "\<dots> = (outstanding (queue_run es (queue_step e s))
                      + answered (queue_run es (queue_step e s))
                      + mset (map request_id (dropped_requests es (queue_step e s))))
                   + mset (map request_id (dropped_requests [e] s))"
    by (simp only: Cons.IH)
  also have "\<dots> = outstanding (queue_run (e # es) s) + answered (queue_run (e # es) s)
                   + mset (map request_id (dropped_requests (e # es) s))"
    by (subst (2) dropped_requests_Cons) simp
  finally show ?case .
qed




text \<open>Every possible step of a worker reduces the work that is left.\<close>

lemma enabled_progress:
  "enabled e s \<Longrightarrow> pending_work (queue_step e s) < pending_work s"
proof (cases e)
  case (Take i)
  assume "enabled e s"
  with Take obtain r rest where q: "queue s = r # rest"
    and len: "i < length (workers s)" and idle: "workers s ! i = Idle" and run: "q_running s"
    by (cases "queue s") auto
  from worker_load_update [OF len, of "Busy r"] idle
  have "sum_list (map worker_load ((workers s)[i := Busy r]))
          = sum_list (map worker_load (workers s)) + 2"
    by simp
  with Take q len idle run show ?thesis
    by (simp add: worker_take_def pending_work_def)
next
  case (Finish i out)
  assume "enabled e s"
  with Finish obtain r where len: "i < length (workers s)" and busy: "workers s ! i = Busy r"
    by (cases "workers s ! i") auto
  define w' where "w' = (case callback r of
                           Some (CoroutineCallback result) \<Rightarrow>
                             InCallback r (process_request out r)
                         | _ \<Rightarrow> Idle)"
  have "worker_load w' < 2"
    by (simp add: w'_def split: option.splits callback.splits)
  with worker_load_update [OF len, of w'] busy
  have "sum_list (map worker_load ((workers s)[i := w']))
          < sum_list (map worker_load (workers s))"
    by simp
  with Finish show ?thesis
    by (simp add: pending_work_def worker_finish_busy [OF len busy] w'_def)
next
  case (CallbackDone i)
  assume "enabled e s"
  with CallbackDone obtain r response
    where len: "i < length (workers s)" and cb: "workers s ! i = InCallback r response"
    by (cases "workers s ! i") auto
  from worker_load_update [OF len, of Idle] cb
  have "sum_list (map worker_load ((workers s)[i := Idle]))
          < sum_list (map worker_load (workers s))"
    by simp
  with CallbackDone show ?thesis
    by (simp add: pending_work_def callback_done_in_callback [OF len cb])
qed simp_all

text \<open>As long as work is left in a running queue with workers, some worker can step.\<close>

lemma all_idle_no_load:
  "\<forall>w \<in> set ws. w = Idle \<Longrightarrow> sum_list (map worker_load ws) = 0"
  by (induction ws) simp_all

lemma work_left_enabled:
  assumes "q_running s" "workers s \<noteq> []" "0 < pending_work s"
  shows "\<exists>e. enabled e s"
proof (cases "\<forall>w \<in> set (workers s). w = Idle")
  case True
  then have "sum_list (map worker_load (workers s)) = 0"
    by (rule all_idle_no_load)
  with assms(3) have "queue s \<noteq> []"
    by (auto simp: pending_work_def)
  moreover have "0 < length (workers s)" "workers s ! 0 = Idle"
    using assms(2) True by (simp_all add: nth_mem)
  ultimately have "enabled (Take 0) s"
    using assms(1) by simp
  then show ?thesis ..
next
  case False
  then obtain w where "w \<in> set (workers s)" "w \<noteq> Idle" by blast
  then obtain i where len: "i < length (workers s)" and wi: "workers s ! i = w"
    by (auto simp: in_set_conv_nth)
  show ?thesis
  proof (cases w)
    case Idle
    with \<open>w \<noteq> Idle\<close> show ?thesis by simp
  next
    case (Busy r)
    with len wi have "enabled (Finish i (OpReturns PyNone)) s" by simp
    then show ?thesis ..
  next
    case (InCallback r response)
    with len wi have "enabled (CallbackDone i) s" by simp
    then show ?thesis ..
  qed
qed

lemma no_work_left:
  assumes "pending_work s = 0"
  shows "queue s = [] \<and> busy_requests (workers s) = []"
proof -
  have "sum_list (map worker_load ws) = 0 \<Longrightarrow> busy_requests ws = []" for ws
  proof (induction ws)
    case Nil
    show ?case by simp
  next
    case (Cons w ws)
    then show ?case by (cases w) simp_all
  qed
  with assms show ?thesis by (simp add: pending_work_def)
qed

text \<open>A queue that was started has its three workers until it is stopped.\<close>

lemma step_workers:
  "(if q_running s then length (workers s) = num_workers else workers s = []) \<Longrightarrow>
   (if q_running (queue_step e s) then length (workers (queue_step e s)) = num_workers
    else workers (queue_step e s) = [])"
proof (cases e)
  case (Take i)
  assume "if q_running s then length (workers s) = num_workers else workers s = []"
  with Take show ?thesis
    by (auto simp add: worker_take_def split: list.splits)
next
  case (Finish i out)
  assume inv: "if q_running s then length (workers s) = num_workers else workers s = []"
  show ?thesis
  proof (cases "i < length (workers s) \<and> is_busy (workers s ! i)")
    case True
    then obtain r where "i < length (workers s)" "workers s ! i = Busy r"
      by (cases "workers s ! i") auto
    with inv Finish show ?thesis
      by (auto simp add: worker_finish_busy)
  next
    case False
    with inv Finish show ?thesis by (simp add: worker_finish_other)
  qed
next
  case (CallbackDone i)
  assume inv: "if q_running s then length (workers s) = num_workers else workers s = []"
  show ?thesis
  proof (cases "i < length (workers s) \<and> in_callback (workers s ! i)")
    case True
    then obtain r response
      where "i < length (workers s)" "workers s ! i = InCallback r response"
      by (cases "workers s ! i") auto
    with inv CallbackDone show ?thesis
      by (auto simp add: callback_done_in_callback)
  next
    case False
    with inv CallbackDone show ?thesis by (simp add: callback_done_other)
  qed
next
  case (WaitEnds r)
  assume "if q_running s then length (workers s) = num_workers else workers s = []"
  with WaitEnds show ?thesis
    by (auto simp add: submit_wait_def split: option.splits future_state.splits)
next
  case Start
  assume "if q_running s then length (workers s) = num_workers else workers s = []"
  with Start show ?thesis by (auto simp add: queue_start_def)
next
  case Stop
  assume "if q_running s then length (workers s) = num_workers else workers s = []"
  with Stop show ?thesis by (auto simp add: queue_stop_def)
next
  case (Submit r)
  assume "if q_running s then length (workers s) = num_workers else workers s = []"
  with Submit show ?thesis by (auto simp add: submit_put_def enqueue_def)
qed

lemma run_workers:
  "(if q_running s then length (workers s) = num_workers else workers s = []) \<Longrightarrow>
   (if q_running (queue_run evs s) then length (workers (queue_run evs s)) = num_workers
    else workers (queue_run evs s) = [])"
proof (induction evs arbitrary: s)
  case Nil
  then show ?case by simp
next
  case (Cons e es)
  from step_workers [OF Cons.prems, of e] have
    "if q_running (queue_step e s) then length (workers (queue_step e s)) = num_workers
     else workers (queue_step e s) = []" .
  from Cons.IH [OF this] show ?case by simp
qed

lemma running_queue_can_step:
  assumes "q_running (queue_run evs (new_queue cfg))"
    and "0 < pending_work (queue_run evs (new_queue cfg))"
  shows "\<exists>e. enabled e (queue_run evs (new_queue cfg))"
proof -
  have "if q_running (queue_run evs (new_queue cfg))
        then length (workers (queue_run evs (new_queue cfg))) = num_workers
        else workers (queue_run evs (new_queue cfg)) = []"
    by (rule run_workers) (simp add: new_queue_def)
  with assms(1) have "workers (queue_run evs (new_queue cfg)) \<noteq> []"
    by (auto simp: num_workers_def)
  with assms show ?thesis by (intro work_left_enabled)
qed


text \<open>
  From a running queue with its workers, the steps of the workers can be continued until
  no work is left; they accept and drop nothing.
\<close>

lemma enabled_step_keeps:
  assumes "enabled e s"
  shows "q_running (queue_step e s) = q_running s
     \<and> length (workers (queue_step e s)) = length (workers s)
     \<and> accepted_requests [e] s = [] \<and> dropped_requests [e] s = []"
proof (cases e)
  case (Take i)
  with assms show ?thesis by (auto simp add: worker_take_def split: list.splits)
next
  case (Finish i out)
  with assms obtain r where "i < length (workers s)" "workers s ! i = Busy r"
    by (cases "workers s ! i") auto
  with Finish show ?thesis by (simp add: worker_finish_busy)
next
  case (CallbackDone i)
  with assms obtain r response
    where "i < length (workers s)" "workers s ! i = InCallback r response"
    by (cases "workers s ! i") auto
  with CallbackDone show ?thesis by (simp add: callback_done_in_callback)
qed (use assms in simp_all)

lemma can_drain:
  "q_running s \<Longrightarrow> workers s \<noteq> [] \<Longrightarrow>
   \<exists>es. pending_work (queue_run es s) = 0 \<and> accepted_requests es s = []
        \<and> dropped_requests es s = []"
proof (induction "pending_work s" arbitrary: s rule: less_induct)
  case less
  show ?case
  proof (cases "pending_work s = 0")
    case True
    then have "pending_work (queue_run [] s) = 0 \<and> accepted_requests [] s = []
        \<and> dropped_requests [] s = []"
      by simp
    then show ?thesis by blast
  next
    case False
    then obtain e where en: "enabled e s"
      using work_left_enabled [OF less.prems] by auto
    let ?t = "queue_step e s"
    have lt: "pending_work ?t < pending_work s"
      using en by (rule enabled_progress)
    note keep = enabled_step_keeps [OF en]
    have "q_running ?t" "workers ?t \<noteq> []"
      using keep less.prems by auto
    from less.hyps [OF lt this] obtain es
      where es: "pending_work (queue_run es ?t) = 0" "accepted_requests es ?t = []"
        "dropped_requests es ?t = []"
      by blast
    have "pending_work (queue_run (e # es) s) = 0 \<and> accepted_requests (e # es) s = []
        \<and> dropped_requests (e # es) s = []"
      using es keep
      by (simp add: accepted_requests_Cons [of e es] dropped_requests_Cons [of e es])
    then show ?thesis by blast
  qed
qed

lemma running_queue_can_drain:
  assumes "q_running (queue_run evs (new_queue cfg))"
  shows "\<exists>es. outstanding (queue_run es (queue_run evs (new_queue cfg))) = {#}
     \<and> answered (queue_run es (queue_run evs (new_queue cfg)))
         = answered (queue_run evs (new_queue cfg)) + outstanding (queue_run evs (new_queue cfg))"
proof -
  let ?s = "queue_run evs (new_queue cfg)"
  have "if q_running ?s then length (workers ?s) = num_workers else workers ?s = []"
    by (rule run_workers) (simp add: new_queue_def)
  with assms have "workers ?s \<noteq> []"
    by (auto simp: num_workers_def)
  from can_drain [OF assms this] obtain es
    where es: "pending_work (queue_run es ?s) = 0" "accepted_requests es ?s = []"
      "dropped_requests es ?s = []"
    by blast
  from no_work_left [OF es(1)] have out: "outstanding (queue_run es ?s) = {#}"
    by (simp add: outstanding_def)
  from run_accounting [of ?s es] es(2,3) out
  have "answered (queue_run es ?s) = answered ?s + outstanding ?s"
    by (simp add: ac_simps)
  with out show ?thesis by blast
qed



text \<open>
  Claim C1, as stated, fails in three ways. A request with a future is accepted and
  taken by a worker, and the queue is stopped before the worker is done: the request is
  no longer queued, no worker holds it, no response was built for it and its future is
  still pending; starting the queue again and letting every worker run changes none of
  this. When the queue is stopped while the worker awaits a coroutine callback, the
  response was built and passed to the callback, and the future stays pending. And
  without any stop: the caller's wait times out first and the worker answers later, so
  there are two responses for the request, the one \<open>submit_request\<close> made up for the
  caller and the one of the worker, which reaches the callback while the future is
  cancelled.
\<close>

theorem stop_drops_request_in_flight:
  "map request_id (accepted_requests stopped_in_flight (new_queue test_config)) = [''r'']
   \<and> queue (queue_run stopped_in_flight (new_queue test_config)) = []
   \<and> workers (queue_run stopped_in_flight (new_queue test_config)) = []
   \<and> responses (queue_run stopped_in_flight (new_queue test_config)) = []
   \<and> futures (queue_run stopped_in_flight (new_queue test_config)) ''r'' = Some Pending
   \<and> queue (queue_run restarted (new_queue test_config)) = []
   \<and> busy_requests (workers (queue_run restarted (new_queue test_config))) = []
   \<and> responses (queue_run restarted (new_queue test_config)) = []
   \<and> futures (queue_run restarted (new_queue test_config)) ''r'' = Some Pending
   \<and> map request_id (accepted_requests stopped_in_callback (new_queue test_config)) = [''n'']
   \<and> map response_id (responses (queue_run stopped_in_callback (new_queue test_config)))
       = [''n'']
   \<and> map response_id (callback_calls (queue_run stopped_in_callback (new_queue test_config)))
       = [''n'']
   \<and> workers (queue_run stopped_in_callback (new_queue test_config)) = []
   \<and> futures (queue_run stopped_in_callback (new_queue test_config)) ''n'' = Some Pending
   \<and> map request_id (accepted_requests answered_late (new_queue test_config)) = [''n'']
   \<and> map response_id (synthetic (queue_run answered_late (new_queue test_config))) = [''n'']
   \<and> map response_id (responses (queue_run answered_late (new_queue test_config))) = [''n'']
   \<and> map response_id (callback_calls (queue_run answered_late (new_queue test_config)))
       = [''n'']
   \<and> futures (queue_run answered_late (new_queue test_config)) ''n'' = Some FutureCancelled"
  by code_simp

text \<open>
  Claim C1, amended. In every run, the ids of the requests waiting or held by a worker
  and of the responses built, together with those of the requests the run accepted, are
  afterwards the ids waiting or held by a worker, those of the responses built, and
  those of the requests a worker held when the queue was stopped: an accepted request
  is waiting, in the hands of a worker, answered by one response of a worker, or
  dropped by \<open>stop\<close>. The worker that finishes a request builds one response with the id
  of the request and passes it to the callback if there is one; after a coroutine
  callback has ended, and at once otherwise, it resolves the future with it if the
  request has one that is still pending. A caller whose wait on a pending future ends
  cancels the future and gets a response of its own. \<open>stop\<close> leaves the queue, the
  futures and the responses as they are and only removes the workers. While the queue
  runs, every possible step of a worker reduces the work that is left, some step is
  possible as long as work is left, and when none is left no request is waiting or held:
  with workers that keep stepping, every accepted request is answered, and the steps
  that answer all of them exist.
\<close>

theorem request_accounting:
  "outstanding s + answered s + mset (map request_id (accepted_requests evs s))
     = outstanding (queue_run evs s) + answered (queue_run evs s)
         + mset (map request_id (dropped_requests evs s))
   \<and> (i < length (workers s) \<and> workers s ! i = Busy r \<longrightarrow>
        responses (worker_finish i out s) = responses s @ [process_request out r]
      \<and> response_id (process_request out r) = request_id r
      \<and> callback_calls (worker_finish i out s)
          = (case callback r of None \<Rightarrow> callback_calls s
             | Some cb \<Rightarrow> callback_calls s @ [process_request out r])
      \<and> futures (worker_finish i out s)
          = (case callback r of
               Some (CoroutineCallback result) \<Rightarrow> futures s
             | _ \<Rightarrow> futures (resolve_future r (process_request out r) s))
      \<and> workers (worker_finish i out s)
          = (workers s)[i := (case callback r of
                                Some (CoroutineCallback result) \<Rightarrow>
                                  InCallback r (process_request out r)
                              | _ \<Rightarrow> Idle)])
   \<and> (i < length (workers s) \<and> workers s ! i = InCallback r response \<longrightarrow>
        callback_done i s
          = (resolve_future r response s)\<lparr> workers := (workers s)[i := Idle] \<rparr>)
   \<and> futures (resolve_future r response s)
       = (if future r \<and> futures s (request_id r) = Some Pending
          then (futures s)(request_id r \<mapsto> Done response) else futures s)
   \<and> (futures s (request_id r) = Some Pending \<longrightarrow>
        futures (snd (submit_wait r s)) = (futures s)(request_id r \<mapsto> FutureCancelled)
      \<and> map response_id (synthetic (snd (submit_wait r s)))
          = map response_id (synthetic s) @ [request_id r])
   \<and> queue (queue_stop s) = queue s
   \<and> futures (queue_stop s) = futures s
   \<and> responses (queue_stop s) = responses s
   \<and> callback_calls (queue_stop s) = callback_calls s
   \<and> workers (queue_stop s) = (if q_running s then [] else workers s)
   \<and> dropped_requests [Stop] s = (if q_running s then busy_requests (workers s) else [])
   \<and> (enabled e s \<longrightarrow> pending_work (queue_step e s) < pending_work s)
   \<and> (q_running (queue_run evs (new_queue cfg))
        \<and> 0 < pending_work (queue_run evs (new_queue cfg))
      \<longrightarrow> (\<exists>e'. enabled e' (queue_run evs (new_queue cfg))))
   \<and> (pending_work s = 0 \<longrightarrow> queue s = [] \<and> busy_requests (workers s) = [])
   \<and> (q_running (queue_run evs (new_queue cfg)) \<longrightarrow>
        (\<exists>es. outstanding (queue_run es (queue_run evs (new_queue cfg))) = {#}
           \<and> answered (queue_run es (queue_run evs (new_queue cfg)))
               = answered (queue_run evs (new_queue cfg))
                   + outstanding (queue_run evs (new_queue cfg))))"
proof -
  have finish: "i < length (workers s) \<and> workers s ! i = Busy r \<longrightarrow>
        responses (worker_finish i out s) = responses s @ [process_request out r]
      \<and> response_id (process_request out r) = request_id r
      \<and> callback_calls (worker_finish i out s)
          = (case callback r of None \<Rightarrow> callback_calls s
             | Some cb \<Rightarrow> callback_calls s @ [process_request out r])
      \<and> futures (worker_finish i out s)
          = (case callback r of
               Some (CoroutineCallback result) \<Rightarrow> futures s
             | _ \<Rightarrow> futures (resolve_future r (process_request out r) s))
      \<and> workers (worker_finish i out s)
          = (workers s)[i := (case callback r of
                                Some (CoroutineCallback result) \<Rightarrow>
                                  InCallback r (process_request out r)
                              | _ \<Rightarrow> Idle)]"
    using worker_finish_busy(3,6,8,9) [of i s r out] by simp
  have cbdone: "i < length (workers s) \<and> workers s ! i = InCallback r response \<longrightarrow>
        callback_done i s
          = (resolve_future r response s)\<lparr> workers := (workers s)[i := Idle] \<rparr>"
    using callback_done_in_callback [of i s r response] by simp
  have resolve: "futures (resolve_future r response s)
       = (if future r \<and> futures s (request_id r) = Some Pending
          then (futures s)(request_id r \<mapsto> Done response) else futures s)"
    by (simp add: resolve_future_def)
  have wait: "futures s (request_id r) = Some Pending \<longrightarrow>
        futures (snd (submit_wait r s)) = (futures s)(request_id r \<mapsto> FutureCancelled)
      \<and> map response_id (synthetic (snd (submit_wait r s)))
          = map response_id (synthetic s) @ [request_id r]"
    by (simp add: submit_wait_def failed_response_def)
  have stop: "queue (queue_stop s) = queue s
   \<and> futures (queue_stop s) = futures s
   \<and> responses (queue_stop s) = responses s
   \<and> callback_calls (queue_stop s) = callback_calls s
   \<and> workers (queue_stop s) = (if q_running s then [] else workers s)
   \<and> dropped_requests [Stop] s = (if q_running s then busy_requests (workers s) else [])"
    by (simp add: queue_stop_def)
  have progress: "enabled e s \<longrightarrow> pending_work (queue_step e s) < pending_work s"
    using enabled_progress [of e s] by simp
  have live: "q_running (queue_run evs (new_queue cfg))
        \<and> 0 < pending_work (queue_run evs (new_queue cfg))
      \<longrightarrow> (\<exists>e'. enabled e' (queue_run evs (new_queue cfg)))"
    using running_queue_can_step [of evs cfg] by simp
  have quiet: "pending_work s = 0 \<longrightarrow> queue s = [] \<and> busy_requests (workers s) = []"
    using no_work_left [of s] by simp
  have drain: "q_running (queue_run evs (new_queue cfg)) \<longrightarrow>
        (\<exists>es. outstanding (queue_run es (queue_run evs (new_queue cfg))) = {#}
           \<and> answered (queue_run es (queue_run evs (new_queue cfg)))
               = answered (queue_run evs (new_queue cfg))
                   + outstanding (queue_run evs (new_queue cfg)))"
    using running_queue_can_drain [of evs cfg] by simp
  show ?thesis
    using run_accounting [of s evs] finish cbdone resolve wait stop progress live quiet drain
    by (simp only: simp_thms)
qed

theorem request_accounting_witness:
  "workers (queue_run taken_by_worker (new_queue test_config)) ! 0
     = Busy (balance_request 0 True)
   \<and> map response_id
       (responses (worker_finish 0 (OpReturns (PyNum 100))
                     (queue_run taken_by_worker (new_queue test_config)))) = [''r'']
   \<and> futures (worker_finish 0 (OpReturns (PyNum 100))
                (queue_run taken_by_worker (new_queue test_config))) ''r''
       = Some (Done (process_request (OpReturns (PyNum 100)) (balance_request 0 True)))
   \<and> workers (queue_stop (queue_run taken_by_worker (new_queue test_config))) = []
   \<and> map request_id (dropped_requests [Stop] (queue_run taken_by_worker (new_queue test_config)))
       = [''r'']
   \<and> enabled (Finish 0 (OpReturns (PyNum 100))) (queue_run taken_by_worker (new_queue test_config))
   \<and> pending_work (worker_finish 0 (OpReturns (PyNum 100))
                     (queue_run taken_by_worker (new_queue test_config)))
       < pending_work (queue_run taken_by_worker (new_queue test_config))
   \<and> futures (snd (submit_wait (balance_request 0 True)
                     (queue_run taken_by_worker (new_queue test_config)))) ''r''
       = Some FutureCancelled
   \<and> workers (queue_run awaiting_callback (new_queue test_config)) ! 0
       = InCallback notified_request (process_request (OpReturns (PyNum 100)) notified_request)
   \<and> futures (callback_done 0 (queue_run awaiting_callback (new_queue test_config))) ''n''
       = Some (Done (process_request (OpReturns (PyNum 100)) notified_request))
   \<and> q_running (queue_run awaiting_callback (new_queue test_config))
   \<and> 0 < pending_work (queue_run awaiting_callback (new_queue test_config))
   \<and> (\<exists>e. enabled e (queue_run awaiting_callback (new_queue test_config)))
   \<and> (\<exists>es. outstanding (queue_run es (queue_run awaiting_callback (new_queue test_config)))
              = {#})
   \<and> pending_work (new_queue test_config) = 0
   \<and> queue (new_queue test_config) = []"
proof -
  let ?s = "queue_run taken_by_worker (new_queue test_config)"
  let ?t = "queue_run awaiting_callback (new_queue test_config)"
  let ?a = "process_request (OpReturns (PyNum 100)) notified_request"
  have busy: "0 < length (workers ?s) \<and> workers ?s ! 0 = Busy (balance_request 0 True)"
    by code_simp
  have before: "responses ?s = [] \<and> futures ?s ''r'' = Some Pending \<and> q_running ?s
      \<and> map request_id (busy_requests (workers ?s)) = [''r'']
      \<and> enabled (Finish 0 (OpReturns (PyNum 100))) ?s"
    by code_simp
  have r: "request_id (balance_request 0 True) = ''r'' \<and> future (balance_request 0 True)
      \<and> callback (balance_request 0 True) = None"
    by (simp add: balance_request_def new_request_def)
  have waiting: "0 < length (workers ?t) \<and> workers ?t ! 0 = InCallback notified_request ?a
      \<and> futures ?t ''n'' = Some Pending \<and> q_running ?t \<and> 0 < pending_work ?t"
    by code_simp
  have n: "request_id notified_request = ''n'' \<and> future notified_request"
    by (simp add: notified_request_def new_request_def)
  have quiet: "pending_work (new_queue test_config) = 0"
    by (simp add: pending_work_def new_queue_def)
  have first: "map response_id
       (responses (worker_finish 0 (OpReturns (PyNum 100)) ?s)) = [''r'']
   \<and> futures (worker_finish 0 (OpReturns (PyNum 100)) ?s) ''r''
       = Some (Done (process_request (OpReturns (PyNum 100)) (balance_request 0 True)))
   \<and> workers (queue_stop ?s) = []
   \<and> map request_id (dropped_requests [Stop] ?s) = [''r'']
   \<and> pending_work (worker_finish 0 (OpReturns (PyNum 100)) ?s) < pending_work ?s
   \<and> futures (snd (submit_wait (balance_request 0 True) ?s)) ''r'' = Some FutureCancelled"
    using request_accounting
            [of ?s "[Stop]" 0 "balance_request 0 True" "OpReturns (PyNum 100)"
                "process_request (OpReturns (PyNum 100)) (balance_request 0 True)"
                "Finish 0 (OpReturns (PyNum 100))" test_config]
          busy before r
    by (simp add: resolve_future_def)
  have second: "futures (callback_done 0 ?t) ''n'' = Some (Done ?a)
   \<and> (\<exists>e. enabled e ?t)
   \<and> (\<exists>es. outstanding (queue_run es ?t) = {#})"
    using request_accounting
            [of ?t awaiting_callback 0 notified_request "OpReturns (PyNum 100)" ?a
                "CallbackDone 0" test_config]
          waiting n
    by (auto simp add: resolve_future_def)
  have third: "queue (new_queue test_config) = []"
    using request_accounting
            [of "new_queue test_config" "[]" 0 notified_request "OpReturns (PyNum 100)" ?a
                "CallbackDone 0" test_config]
          quiet
    by simp
  show ?thesis
    using busy before waiting quiet first second third by simp
qed

text \<open>
  Claim C2. A caller that does not wait gets the timeout of a full queue raised, as the
  claim says. For a caller that waits the code misses the claim: its request is
  accepted into a queue that is not full, the wait on the future times out, and the
  handler written for the full queue answers, so that the failed response says
  \<open>Queue full\<close>, not \<open>timeout\<close>.
\<close>

theorem result_wait_timeout_says_queue_full:
  "fst (submit_put (balance_request 0 True) (queue_start (new_queue test_config))) = None
   \<and> queue_size (snd (submit_put (balance_request 0 True) (queue_start (new_queue test_config))))
       = 1
   \<and> \<not> full (snd (submit_put (balance_request 0 True) (queue_start (new_queue test_config))))
   \<and> fst (submit_wait (balance_request 0 True)
            (snd (submit_put (balance_request 0 True) (queue_start (new_queue test_config)))))
       = Some (Inr (ReturnsResponse
                      \<lparr> response_id = ''r'', response_type = GET_BALANCE, success = False,
                        data = PyNone, error = Some ''Queue full'' \<rparr>))
   \<and> full (snd (submit_put (balance_request 0 False) (new_queue small_config)))
   \<and> fst (submit_put (balance_request 1 False)
            (snd (submit_put (balance_request 0 False) (new_queue small_config))))
       = Some (Inl TimeoutError)"
  by (simp add: submit_put_def submit_wait_def enqueue_def full_def queue_size_def
        queue_start_def new_queue_def test_config_def small_config_def default_config_def
        balance_request_def new_request_def failed_response_def)


end
